theory Spec2Isabelle
  imports Main "HOL-Library.Multiset"
begin

section \<open>Observable actions of the server\<close>

text \<open>
  The model of \<^verbatim>\<open>mt_server.c\<close> records what the program does to the outside world as a
  list of events, oldest first: every \<^verbatim>\<open>printf\<close> (format string and arguments),
  every \<^verbatim>\<open>perror\<close> (its message), and every system call on a descriptor together
  with the value the kernel returned for it. The return values of the system calls and of
  \<^verbatim>\<open>malloc\<close> are inputs of the model.

  \<^verbatim>\<open>broadcast_to_clients\<close> calls \<^verbatim>\<open>send\<close> with flags 0, and the program never
  changes the disposition of \<^verbatim>\<open>SIGPIPE\<close>. A \<^verbatim>\<open>send\<close> on a connection that
  the peer has shut down therefore does not return: the signal is raised inside the call and
  its default action ends the process. \<open>send_result\<close> has both outcomes of the call, and
  the event \<open>Sigpipe fd m\<close> records a \<^verbatim>\<open>send\<close> of \<open>m\<close> on \<open>fd\<close> that ended the
  process.
\<close>

datatype arg = D int | S string

datatype event =
    Printf string "arg list"
  | Perror string
  | Send int string int
  | Recv int int
  | Close int
  | Sleep nat
  | Syscall string "int list" int
  | Sigpipe int string

datatype send_result = Returns int | Raises_SIGPIPE

text \<open>
  C leaves an access outside an allocated block undefined. The model makes every such
  access a fault, so that a function of the model returns a state only when the C code
  stayed inside its memory.
\<close>

datatype fault = OutOfBounds | NullDeref | Dangling

definition MAX_CLIENTS :: int where
  "MAX_CLIENTS = 100"

definition EXIT_FAILURE :: int where
  "EXIT_FAILURE = 1"

section \<open>The client manager\<close>

text \<open>
  \<^verbatim>\<open>client_manager_t\<close>: the array \<^verbatim>\<open>client_fds\<close> (the block that
  \<^verbatim>\<open>malloc\<close> returned, as the list of its cells) and \<^verbatim>\<open>count\<close>. The C
  \<^verbatim>\<open>int\<close>s are modelled as unbounded integers: descriptors are only stored and
  compared, \<^verbatim>\<open>count++\<close> runs only below \<^verbatim>\<open>MAX_CLIENTS\<close> and
  \<^verbatim>\<open>count--\<close> only when a loop index below \<^verbatim>\<open>count\<close> exists, so no
  operation can wrap. Every function body runs between \<^verbatim>\<open>pthread_mutex_lock\<close> and
  \<^verbatim>\<open>pthread_mutex_unlock\<close> on the manager's mutex; the model takes each call as one
  atomic step.
\<close>

record client_manager =
  client_fds :: "int list"
  count :: int

text \<open>
  \<^verbatim>\<open>init_client_manager\<close>. The input is what \<^verbatim>\<open>malloc(MAX_CLIENTS * sizeof(int))\<close>
  returned: \<open>None\<close> for \<^verbatim>\<open>NULL\<close>, otherwise the uninitialised content of the block,
  cell by cell. On \<^verbatim>\<open>NULL\<close> the process exits with \<^verbatim>\<open>EXIT_FAILURE\<close>.
\<close>

definition init_client_manager :: "(nat \<Rightarrow> int) option \<Rightarrow> (int \<times> event list) + client_manager" where
  "init_client_manager block =
     (case block of
        None \<Rightarrow> Inl (EXIT_FAILURE, [Perror ''Failed to allocate memory for client file descriptors''])
      | Some cells \<Rightarrow> Inr \<lparr>client_fds = map cells [0..<nat MAX_CLIENTS], count = 0\<rparr>)"

definition add_client :: "client_manager \<Rightarrow> int \<Rightarrow> fault + (client_manager \<times> event list)" where
  "add_client cm fd =
     (if count cm < MAX_CLIENTS then
        (if 0 \<le> count cm \<and> nat (count cm) < length (client_fds cm) then
           Inr (cm\<lparr>client_fds := (client_fds cm)[nat (count cm) := fd], count := count cm + 1\<rparr>,
                [Printf ''New client added. Total clients: %d\<newline>'' [D (count cm + 1)]])
         else Inl OutOfBounds)
      else Inr (cm, [Printf ''Warning: Maximum clients reached, connection rejected\<newline>'' []]))"

text \<open>
  The loop of \<^verbatim>\<open>remove_client\<close> from index \<open>i\<close> on. The first cell equal to
  \<open>fd\<close> is overwritten with the last active cell, \<^verbatim>\<open>count\<close> is decremented and the
  loop is left.
\<close>

function remove_scan :: "client_manager \<Rightarrow> int \<Rightarrow> nat \<Rightarrow> fault + (client_manager \<times> event list)" where
  "remove_scan cm fd i =
     (if int i < count cm then
        (if i < length (client_fds cm) then
           (if client_fds cm ! i = fd then
              (if nat (count cm - 1) < length (client_fds cm) then
                 Inr (cm\<lparr>client_fds := (client_fds cm)[i := client_fds cm ! nat (count cm - 1)],
                          count := count cm - 1\<rparr>,
                      [Printf ''Client %d removed. Total clients: %d\<newline>'' [D fd, D (count cm - 1)]])
               else Inl OutOfBounds)
            else remove_scan cm fd (Suc i))
         else Inl OutOfBounds)
      else Inr (cm, []))"
  by pat_completeness auto
termination
  by (relation "measure (\<lambda>(cm, fd, i). nat (count cm) - i)") auto

declare remove_scan.simps [simp del]

definition remove_client :: "client_manager \<Rightarrow> int \<Rightarrow> fault + (client_manager \<times> event list)" where
  "remove_client cm fd = remove_scan cm fd 0"

text \<open>
  The loop of \<^verbatim>\<open>broadcast_to_clients\<close> from index \<open>i\<close> on. \<open>rs i\<close> is the
  outcome of the \<open>i\<close>-th \<^verbatim>\<open>send\<close> of the loop. The payload is the \<^verbatim>\<open>len\<close>
  bytes at \<^verbatim>\<open>data\<close>. The result is the events of the loop and whether the process
  was ended inside a \<^verbatim>\<open>send\<close>; in that case no later iteration runs.
\<close>

function broadcast_scan ::
  "client_manager \<Rightarrow> string \<Rightarrow> (nat \<Rightarrow> send_result) \<Rightarrow> nat \<Rightarrow> fault + (event list \<times> bool)" where
  "broadcast_scan cm data rs i =
     (if int i < count cm then
        (if i < length (client_fds cm) then
           (case rs i of
              Raises_SIGPIPE \<Rightarrow> Inr ([Sigpipe (client_fds cm ! i) data], True)
            | Returns r \<Rightarrow>
                (case broadcast_scan cm data rs (Suc i) of
                   Inl f \<Rightarrow> Inl f
                 | Inr (evs, killed) \<Rightarrow>
                     Inr (Send (client_fds cm ! i) data r
                          # (if r < 0 then [Perror ''Failed to send data to client''] else [])
                          @ evs, killed)))
         else Inl OutOfBounds)
      else Inr ([], False))"
  by pat_completeness auto
termination
  by (relation "measure (\<lambda>(cm, data, rs, i). nat (count cm) - i)") auto

declare broadcast_scan.simps [simp del]

definition broadcast_to_clients ::
  "client_manager \<Rightarrow> string \<Rightarrow> (nat \<Rightarrow> send_result) \<Rightarrow>
     fault + (client_manager \<times> event list \<times> bool)" where
  "broadcast_to_clients cm data rs =
     (case broadcast_scan cm data rs 0 of
        Inl f \<Rightarrow> Inl f
      | Inr (evs, killed) \<Rightarrow> Inr (cm, evs, killed))"

text \<open>
  The content of the client manager is the first \<^verbatim>\<open>count\<close> cells of
  \<^verbatim>\<open>client_fds\<close>, which are the cells that the loops of \<^verbatim>\<open>remove_client\<close>
  and \<^verbatim>\<open>broadcast_to_clients\<close> visit.
\<close>

definition active :: "client_manager \<Rightarrow> int list" where
  "active cm = take (nat (count cm)) (client_fds cm)"

definition registered :: "client_manager \<Rightarrow> int set" where
  "registered cm = set (active cm)"

text \<open>
  Reading the events of a broadcast: the descriptors that \<^verbatim>\<open>send\<close> was called on, in
  call order; those among them for which the call did not fail; and the messages logged by
  \<^verbatim>\<open>perror\<close>.
\<close>

fun sent_to :: "event list \<Rightarrow> (int \<times> string) list" where
  "sent_to [] = []"
| "sent_to (Send fd m r # es) = (fd, m) # sent_to es"
| "sent_to (e # es) = sent_to es"

fun delivered :: "event list \<Rightarrow> (int \<times> string) list" where
  "delivered [] = []"
| "delivered (Send fd m r # es) = (if 0 \<le> r then (fd, m) # delivered es else delivered es)"
| "delivered (e # es) = delivered es"

fun perrors :: "event list \<Rightarrow> string list" where
  "perrors [] = []"
| "perrors (Perror m # es) = m # perrors es"
| "perrors (e # es) = perrors es"

section \<open>The connection queue\<close>

text \<open>
  \<^verbatim>\<open>conn_node_t\<close> and \<^verbatim>\<open>conn_queue_t\<close>. Nodes live in a heap, a map from
  addresses to nodes; a pointer is an address or \<open>None\<close> for \<^verbatim>\<open>NULL\<close>. Reading
  through a pointer to no allocated node is the fault \<open>Dangling\<close>. The mutex makes each
  call one atomic step, as for the client manager.
\<close>

record conn_node =
  connfd :: int
  "next" :: "nat option"

type_synonym heap = "nat \<Rightarrow> conn_node option"

record conn_queue =
  head :: "nat option"
  tail :: "nat option"

definition init_queue :: conn_queue where
  "init_queue = \<lparr>head = None, tail = None\<rparr>"

text \<open>
  \<^verbatim>\<open>enqueue\<close>. \<open>node\<close> is what \<^verbatim>\<open>malloc(sizeof(conn_node_t))\<close> returned.
\<close>

definition enqueue ::
  "heap \<Rightarrow> conn_queue \<Rightarrow> int \<Rightarrow> nat option \<Rightarrow> fault + (heap \<times> conn_queue \<times> event list)" where
  "enqueue h q fd node =
     (case node of
        None \<Rightarrow> Inr (h, q, [Perror ''Failed to allocate memory for connection node''])
      | Some a \<Rightarrow>
          (let h1 = h(a \<mapsto> \<lparr>connfd = fd, next = None\<rparr>) in
           case tail q of
             None \<Rightarrow> Inr (h1, q\<lparr>head := Some a, tail := Some a\<rparr>, [])
           | Some t \<Rightarrow>
               (case h1 t of
                  None \<Rightarrow> Inl Dangling
                | Some nd \<Rightarrow> Inr (h1(t \<mapsto> nd\<lparr>next := Some a\<rparr>), q\<lparr>tail := Some a\<rparr>, []))))"

text \<open>
  \<^verbatim>\<open>dequeue\<close>. While the queue is empty the caller stays in
  \<^verbatim>\<open>pthread_cond_wait\<close>: the call does not return, which is the result \<open>None\<close>.
  Otherwise the head node is unlinked and freed and its descriptor returned.
\<close>

definition dequeue :: "heap \<Rightarrow> conn_queue \<Rightarrow> fault + (int \<times> heap \<times> conn_queue) option" where
  "dequeue h q =
     (case head q of
        None \<Rightarrow> Inr None
      | Some a \<Rightarrow>
          (case h a of
             None \<Rightarrow> Inl Dangling
           | Some nd \<Rightarrow>
               (let q1 = q\<lparr>head := next nd\<rparr>;
                    q2 = (if head q1 = None then q1\<lparr>tail := None\<rparr> else q1)
                in Inr (Some (connfd nd, h(a := None), q2)))))"

text \<open>
  A history of queue calls in the order in which they held the mutex. \<open>queue_ops\<close> runs
  it and collects the descriptors that were linked in by \<^verbatim>\<open>enqueue\<close> and those that
  \<^verbatim>\<open>dequeue\<close> returned, each in call order. A \<^verbatim>\<open>dequeue\<close> that finds the queue
  empty waits and returns nothing at that point of the history.
\<close>

datatype qop = Enq int "nat option" | Deq

fun queue_ops :: "heap \<Rightarrow> conn_queue \<Rightarrow> qop list \<Rightarrow> fault + (heap \<times> conn_queue \<times> int list \<times> int list)" where
  "queue_ops h q [] = Inr (h, q, [], [])"
| "queue_ops h q (Enq fd node # ops) =
     (case enqueue h q fd node of
        Inl f \<Rightarrow> Inl f
      | Inr (h1, q1, evs) \<Rightarrow>
          (case queue_ops h1 q1 ops of
             Inl f \<Rightarrow> Inl f
           | Inr (h2, q2, es, ds) \<Rightarrow> Inr (h2, q2, (if node = None then es else fd # es), ds)))"
| "queue_ops h q (Deq # ops) =
     (case dequeue h q of
        Inl f \<Rightarrow> Inl f
      | Inr None \<Rightarrow> queue_ops h q ops
      | Inr (Some (fd, h1, q1)) \<Rightarrow>
          (case queue_ops h1 q1 ops of
             Inl f \<Rightarrow> Inl f
           | Inr (h2, q2, es, ds) \<Rightarrow> Inr (h2, q2, es, fd # ds)))"

text \<open>
  What \<^verbatim>\<open>malloc\<close> guarantees along a history: a block it returns is not one that is
  allocated at that moment.
\<close>

fun mallocs_fresh :: "heap \<Rightarrow> conn_queue \<Rightarrow> qop list \<Rightarrow> bool" where
  "mallocs_fresh h q [] = True"
| "mallocs_fresh h q (Enq fd node # ops) =
     ((case node of None \<Rightarrow> True | Some a \<Rightarrow> h a = None) \<and>
      (case enqueue h q fd node of
         Inl f \<Rightarrow> True
       | Inr (h1, q1, evs) \<Rightarrow> mallocs_fresh h1 q1 ops))"
| "mallocs_fresh h q (Deq # ops) =
     (case dequeue h q of
        Inl f \<Rightarrow> True
      | Inr None \<Rightarrow> mallocs_fresh h q ops
      | Inr (Some (fd, h1, q1)) \<Rightarrow> mallocs_fresh h1 q1 ops)"

text \<open>
  The list that a heap and a queue represent: \<open>chain h p as\<close> says that following
  \<^verbatim>\<open>next\<close> from \<open>p\<close> visits exactly the addresses \<open>as\<close> and ends at
  \<^verbatim>\<open>NULL\<close>; \<open>fds h as\<close> reads the descriptors stored at these addresses;
  \<open>queue_repr h q xs\<close> says that the queue holds the descriptors \<open>xs\<close>, head first,
  with \<^verbatim>\<open>tail\<close> at the last node.
\<close>

fun chain :: "heap \<Rightarrow> nat option \<Rightarrow> nat list \<Rightarrow> bool" where
  "chain h p [] = (p = None)"
| "chain h p (a # as) = (p = Some a \<and> (case h a of None \<Rightarrow> False | Some nd \<Rightarrow> chain h (next nd) as))"

definition fds :: "heap \<Rightarrow> nat list \<Rightarrow> int list" where
  "fds h as = map (\<lambda>a. case h a of None \<Rightarrow> 0 | Some nd \<Rightarrow> connfd nd) as"

definition queue_repr :: "heap \<Rightarrow> conn_queue \<Rightarrow> int list \<Rightarrow> bool" where
  "queue_repr h q xs =
     (\<exists>as. chain h (head q) as \<and> distinct as \<and>
           tail q = (if as = [] then None else Some (last as)) \<and> xs = fds h as)"

section \<open>The sender thread\<close>

text \<open>
  \<^verbatim>\<open>%d\<close> of a C \<^verbatim>\<open>int\<close>, and the text that \<^verbatim>\<open>snprintf\<close> writes into
  \<^verbatim>\<open>test_message\<close>: 21 characters and the decimal counter, which always fits the
  1024 bytes of the buffer. The alphabet that the \<^verbatim>\<open>for\<close> loop stores in the buffer
  first is overwritten before anything reads it. The counter is an unbounded integer: the
  C \<^verbatim>\<open>int\<close> leaves its range only after \<open>2 ^ 31\<close> sends, a second apart.
\<close>

fun decimal :: "nat \<Rightarrow> string" where
  "decimal n = (if n < 10 then [''0123456789'' ! n] else decimal (n div 10) @ [''0123456789'' ! (n mod 10)])"

declare decimal.simps [simp del]

definition show_int :: "int \<Rightarrow> string" where
  "show_int i = (if i < 0 then CHR ''-'' # decimal (nat (- i)) else decimal (nat i))"

definition test_message :: "int \<Rightarrow> string" where
  "test_message counter = ''Server test message #'' @ show_int counter"

text \<open>
  \<^verbatim>\<open>sender_thread\<close> as a machine that takes one step per system call. At
  \<open>S_send\<close> the thread is at the \<^verbatim>\<open>send\<close> of its loop, at \<open>S_close\<close> it has
  left the loop and is at \<^verbatim>\<open>close(connfd)\<close>, at \<open>S_done\<close> it has returned. The
  input of a step is the value the system call returns; the steps are those of calls that
  return (a \<^verbatim>\<open>send\<close> that raises \<^verbatim>\<open>SIGPIPE\<close> ends the process and is no step
  of this machine).
\<close>

datatype spc = S_send | S_close | S_done

record sender =
  s_connfd :: int
  s_counter :: int
  s_pc :: spc

definition sender_start :: "int \<Rightarrow> sender" where
  "sender_start fd = \<lparr>s_connfd = fd, s_counter = 0, s_pc = S_send\<rparr>"

definition sender_step :: "sender \<Rightarrow> int \<Rightarrow> sender \<times> event list" where
  "sender_step s r =
     (case s_pc s of
        S_send \<Rightarrow>
          (let msg = test_message (s_counter s) in
           if r < 0 then
             (s\<lparr>s_counter := s_counter s + 1, s_pc := S_close\<rparr>,
              [Send (s_connfd s) msg r, Perror ''Failed to send data''])
           else
             (s\<lparr>s_counter := s_counter s + 1\<rparr>,
              [Send (s_connfd s) msg r,
               Printf ''[SERVER] Sent to client %d: %s\<newline>'' [D (s_connfd s), S msg],
               Sleep 1]))
      | S_close \<Rightarrow> (s\<lparr>s_pc := S_done\<rparr>, [Close (s_connfd s)])
      | S_done \<Rightarrow> (s, []))"

fun sender_run :: "sender \<Rightarrow> int list \<Rightarrow> sender \<times> event list" where
  "sender_run s [] = (s, [])"
| "sender_run s (r # rs) =
     (case sender_step s r of (s1, e1) \<Rightarrow>
        (case sender_run s1 rs of (s2, e2) \<Rightarrow> (s2, e1 @ e2)))"

definition sender_thread :: "int \<Rightarrow> int list \<Rightarrow> sender \<times> event list" where
  "sender_thread fd rs = sender_run (sender_start fd) rs"

section \<open>The worker thread\<close>

definition BUFFER_SIZE :: int where
  "BUFFER_SIZE = 1024"

text \<open>
  What the environment hands to one step of a thread: the return value of the system call,
  the bytes that \<^verbatim>\<open>recv\<close> stored in the buffer, and what \<^verbatim>\<open>malloc\<close> returned.
  A step reads the fields that its system calls produce.
\<close>

record sysret =
  ret :: int
  bytes :: string
  block :: "nat option"

text \<open>The global variables \<^verbatim>\<open>queue\<close> and \<^verbatim>\<open>clients\<close>, and the heap of queue nodes.\<close>

record server =
  nodes :: heap
  queue :: conn_queue
  clients :: client_manager

text \<open>
  One iteration of the loop of \<^verbatim>\<open>worker_thread\<close> has four steps: \<open>W_dequeue\<close>, the
  call of \<^verbatim>\<open>dequeue\<close>; \<open>W_create\<close>, \<^verbatim>\<open>malloc\<close> and \<^verbatim>\<open>pthread_create\<close>
  for the sender; \<open>W_recv\<close>, one \<^verbatim>\<open>recv\<close> of the read loop; \<open>W_close\<close>, the
  \<^verbatim>\<open>close(connfd)\<close> that ends the iteration.
\<close>

datatype wpc = W_dequeue | W_create | W_recv | W_close

record worker =
  w_pc :: wpc
  w_connfd :: int

definition c_string :: "string \<Rightarrow> string" where
  "c_string bs = takeWhile (\<lambda>c. c \<noteq> CHR 0x00) bs"

text \<open>
  The steps that serve a connection once it is dequeued. A step returns the worker, the
  sender thread it started (if it started one) and its events. \<^verbatim>\<open>*conn_arg = connfd\<close>
  is not guarded: when \<^verbatim>\<open>malloc\<close> returned \<^verbatim>\<open>NULL\<close> it is a fault.
  \<^verbatim>\<open>buffer[n] = 0\<close> is inside the buffer whenever \<^verbatim>\<open>recv\<close> returns at most the
  \<^verbatim>\<open>BUFFER_SIZE - 1\<close> bytes it was asked for.
\<close>

definition worker_serve :: "worker \<Rightarrow> sysret \<Rightarrow> fault + (worker \<times> sender option \<times> event list)" where
  "worker_serve w e =
     (case w_pc w of
        W_dequeue \<Rightarrow> Inr (w, None, [])
      | W_create \<Rightarrow>
          (case block e of
             None \<Rightarrow> Inl NullDeref
           | Some a \<Rightarrow>
               if ret e \<noteq> 0 then
                 Inr (w\<lparr>w_pc := W_recv\<rparr>, None, [Perror ''Failed to create sender thread''])
               else Inr (w\<lparr>w_pc := W_recv\<rparr>, Some (sender_start (w_connfd w)), []))
      | W_recv \<Rightarrow>
          (if ret e > 0 then
             (if ret e < BUFFER_SIZE then
                Inr (w, None,
                     [Recv (w_connfd w) (ret e),
                      Printf ''[SERVER] Received %zd bytes from connection %d: %s\<newline>''
                        [D (ret e), D (w_connfd w), S (c_string (take (nat (ret e)) (bytes e)))]])
              else Inl OutOfBounds)
           else if ret e < 0 then
             Inr (w\<lparr>w_pc := W_close\<rparr>, None,
                  [Recv (w_connfd w) (ret e), Perror ''Failed to receive data from connection''])
           else
             Inr (w\<lparr>w_pc := W_close\<rparr>, None,
                  [Recv (w_connfd w) (ret e),
                   Printf ''[SERVER] Connection %d closed by client\<newline>'' [D (w_connfd w)]]))
      | W_close \<Rightarrow> Inr (w\<lparr>w_pc := W_dequeue\<rparr>, None, [Close (w_connfd w)]))"

text \<open>
  A step of a worker on the global state. At \<open>W_dequeue\<close> it calls \<^verbatim>\<open>dequeue(&queue)\<close>
  and stays there while the call waits; every other step is \<open>worker_serve\<close>.
\<close>

definition worker_step ::
  "worker \<Rightarrow> sysret \<Rightarrow> server \<Rightarrow> fault + (worker \<times> server \<times> sender option \<times> event list)" where
  "worker_step w e srv =
     (if w_pc w = W_dequeue then
        (case dequeue (nodes srv) (queue srv) of
           Inl f \<Rightarrow> Inl f
         | Inr None \<Rightarrow> Inr (w, srv, None, [])
         | Inr (Some (fd, h, q)) \<Rightarrow>
             Inr (w\<lparr>w_pc := W_create, w_connfd := fd\<rparr>, srv\<lparr>nodes := h, queue := q\<rparr>, None,
                  [Printf ''[SERVER]Worker thread processing connection %d\<newline>'' [D fd]]))
      else
        (case worker_serve w e of
           Inl f \<Rightarrow> Inl f
         | Inr (w1, snd1, evs) \<Rightarrow> Inr (w1, srv, snd1, evs)))"

text \<open>
  A worker over several steps. \<open>serving\<close> is the connection that the worker has dequeued
  and not yet closed: the descriptor in \<^verbatim>\<open>connfd\<close> while the worker is past
  \<open>W_dequeue\<close>.
\<close>

fun worker_run :: "worker \<Rightarrow> server \<Rightarrow> sysret list \<Rightarrow> fault + (worker \<times> server \<times> event list)" where
  "worker_run w srv [] = Inr (w, srv, [])"
| "worker_run w srv (e # es) =
     (case worker_step w e srv of
        Inl f \<Rightarrow> Inl f
      | Inr (w1, srv1, snd1, evs) \<Rightarrow>
          (case worker_run w1 srv1 es of
             Inl f \<Rightarrow> Inl f
           | Inr (w2, srv2, evs2) \<Rightarrow> Inr (w2, srv2, evs @ evs2)))"

definition serving :: "worker \<Rightarrow> int set" where
  "serving w = (if w_pc w = W_dequeue then {} else {w_connfd w})"


section \<open>One connection: the worker and its sender\<close>

text \<open>
  The two threads that hold a connection's descriptor, from the moment \<^verbatim>\<open>dequeue\<close>
  has returned it to a worker. A turn is a step of the worker or of the sender; the worker
  has left the connection when it is back at \<open>W_dequeue\<close>. \<open>c_trace\<close> collects the
  events of both threads in the order of the steps.
\<close>

record conn =
  c_worker :: worker
  c_sender :: "sender option"
  c_trace :: "event list"

definition conn_start :: "int \<Rightarrow> conn" where
  "conn_start fd = \<lparr>c_worker = \<lparr>w_pc = W_create, w_connfd = fd\<rparr>, c_sender = None, c_trace = []\<rparr>"

datatype turn = WorkerTurn sysret | SenderTurn int

definition conn_step :: "conn \<Rightarrow> turn \<Rightarrow> fault + conn" where
  "conn_step c t =
     (case t of
        WorkerTurn e \<Rightarrow>
          (if w_pc (c_worker c) = W_dequeue then Inr c
           else
             (case worker_serve (c_worker c) e of
                Inl f \<Rightarrow> Inl f
              | Inr (w1, snd1, evs) \<Rightarrow>
                  Inr (c\<lparr>c_worker := w1,
                         c_sender := (case snd1 of None \<Rightarrow> c_sender c | Some s \<Rightarrow> Some s),
                         c_trace := c_trace c @ evs\<rparr>)))
      | SenderTurn r \<Rightarrow>
          (case c_sender c of
             None \<Rightarrow> Inr c
           | Some s \<Rightarrow>
               (case sender_step s r of
                  (s1, evs) \<Rightarrow> Inr (c\<lparr>c_sender := Some s1, c_trace := c_trace c @ evs\<rparr>))))"

fun conn_run :: "conn \<Rightarrow> turn list \<Rightarrow> fault + conn" where
  "conn_run c [] = Inr c"
| "conn_run c (t # ts) = (case conn_step c t of Inl f \<Rightarrow> Inl f | Inr c1 \<Rightarrow> conn_run c1 ts)"

text \<open>
  Reading a trace: how often a descriptor was closed, and whether the descriptor was used
  (sent on, received from, or closed again) after a \<^verbatim>\<open>close\<close> of it.
\<close>

definition closes :: "int \<Rightarrow> event list \<Rightarrow> nat" where
  "closes fd tr = count_list tr (Close fd)"

fun on_fd :: "int \<Rightarrow> event \<Rightarrow> bool" where
  "on_fd fd (Send fd' m r) = (fd' = fd)"
| "on_fd fd (Recv fd' r) = (fd' = fd)"
| "on_fd fd (Close fd') = (fd' = fd)"
| "on_fd fd e = False"

fun used_after_close :: "int \<Rightarrow> event list \<Rightarrow> bool" where
  "used_after_close fd [] = False"
| "used_after_close fd (e # es) =
     (if e = Close fd then list_ex (on_fd fd) es else used_after_close fd es)"

text \<open>
  The number of \<^verbatim>\<open>close\<close> calls that the two threads of a connection have made so
  far, read off their program counters, and the invariant of a connection on descriptor
  \<open>fd\<close>: both threads hold \<open>fd\<close>, no sender exists before the worker has created
  it, and the trace shows as many closes of \<open>fd\<close> as the program counters say.
\<close>

definition close_count :: "conn \<Rightarrow> nat" where
  "close_count c =
     (if w_pc (c_worker c) = W_dequeue then 1 else 0) +
     (case c_sender c of None \<Rightarrow> 0 | Some s \<Rightarrow> if s_pc s = S_done then 1 else 0)"

definition conn_inv :: "int \<Rightarrow> conn \<Rightarrow> bool" where
  "conn_inv fd c =
     (w_connfd (c_worker c) = fd \<and>
      (w_pc (c_worker c) = W_create \<longrightarrow> c_sender c = None) \<and>
      (case c_sender c of None \<Rightarrow> True | Some s \<Rightarrow> s_connfd s = fd) \<and>
      closes fd (c_trace c) = close_count c)"

section \<open>The main thread\<close>

definition PORT :: int where
  "PORT = 8080"

definition BACKLOG :: int where
  "BACKLOG = 10"

definition NUM_WORKER_THREADS :: int where
  "NUM_WORKER_THREADS = 4"

text \<open>
  What the environment returns during start-up. \<^verbatim>\<open>setsockopt\<close> is called on
  \<^verbatim>\<open>sockfd\<close> before \<^verbatim>\<open>socket\<close> has assigned it, so the descriptor it gets is
  whatever the stack held (\<open>stack_sockfd\<close>). \<open>create_ret i\<close> is the result of the
  \<open>i\<close>-th \<^verbatim>\<open>pthread_create\<close>.
\<close>

record setup_env =
  stack_sockfd :: int
  setsockopt_ret :: int
  socket_ret :: int
  bind_ret :: int
  listen_ret :: int
  create_ret :: "nat \<Rightarrow> int"

text \<open>
  The process as \<^verbatim>\<open>main\<close> sees it: the globals, the exit status once
  \<^verbatim>\<open>exit\<close> was called, the number of worker threads created, the listening socket
  and the events so far.
\<close>

record process =
  globals :: server
  exit_status :: "int option"
  started :: nat
  sockfd :: int
  events :: "event list"

text \<open>
  The loop that creates the workers, from index \<open>i\<close> on: the number of threads created,
  the exit status if a creation failed, and the events.
\<close>

function create_workers :: "(nat \<Rightarrow> int) \<Rightarrow> int \<Rightarrow> nat \<Rightarrow> nat \<times> int option \<times> event list" where
  "create_workers cr fd i =
     (if int i < NUM_WORKER_THREADS then
        (if cr i \<noteq> 0 then
           (i, Some EXIT_FAILURE,
            [Syscall ''pthread_create'' [int i] (cr i), Perror ''pthread_create failed'', Close fd])
         else
           (case create_workers cr fd (Suc i) of
              (n, st, evs) \<Rightarrow> (n, st, Syscall ''pthread_create'' [int i] (cr i) # evs)))
      else (i, None, []))"
  by pat_completeness auto
termination
  by (relation "measure (\<lambda>(cr, fd, i). nat NUM_WORKER_THREADS - i)") auto

declare create_workers.simps [simp del]

text \<open>
  \<^verbatim>\<open>main\<close> up to the accept loop. The globals start as the loader leaves them:
  no queue node allocated, \<^verbatim>\<open>clients.client_fds\<close> a null pointer (no cell) and
  \<^verbatim>\<open>clients.count\<close> zero; \<^verbatim>\<open>init_queue\<close> sets the queue.
\<close>

definition main_setup :: "setup_env \<Rightarrow> process" where
  "main_setup env =
     (let e0 = [Syscall ''setsockopt'' [stack_sockfd env] (setsockopt_ret env)];
          g = \<lparr>nodes = Map.empty, queue = init_queue, clients = \<lparr>client_fds = [], count = 0\<rparr>\<rparr>;
          fd = socket_ret env;
          e1 = e0 @ [Syscall ''socket'' [] fd]
      in if fd < 0 then
           \<lparr>globals = g, exit_status = Some EXIT_FAILURE, started = 0, sockfd = fd,
            events = e1 @ [Perror ''Failed to create socket'']\<rparr>
         else
           (let e2 = e1 @ [Syscall ''bind'' [fd, PORT] (bind_ret env)]
            in if bind_ret env < 0 then
                 \<lparr>globals = g, exit_status = Some EXIT_FAILURE, started = 0, sockfd = fd,
                  events = e2 @ [Perror ''Failed to bind socket'', Close fd]\<rparr>
               else
                 (let e3 = e2 @ [Syscall ''listen'' [fd, BACKLOG] (listen_ret env)]
                  in if listen_ret env < 0 then
                       \<lparr>globals = g, exit_status = Some EXIT_FAILURE, started = 0, sockfd = fd,
                        events = e3 @ [Perror ''Failed to listen for connections'', Close fd]\<rparr>
                     else
                       (case create_workers (create_ret env) fd 0 of
                          (n, st, evs) \<Rightarrow>
                            \<lparr>globals = g, exit_status = st, started = n, sockfd = fd,
                             events = e3 @ evs @
                               (if st = None
                                then [Printf ''Server is listening on port %d...\<newline>'' [D PORT]]
                                else [])\<rparr>))))"

text \<open>
  One iteration of the accept loop. The input is what \<^verbatim>\<open>accept\<close> returned, the
  peer address it stored, and what the \<^verbatim>\<open>malloc\<close> inside \<^verbatim>\<open>enqueue\<close>
  returns. A process that has exited takes no further step.
\<close>

record accepted =
  acc_ret :: int
  peer_addr :: string
  peer_port :: int
  node :: "nat option"

definition accept_iteration :: "process \<Rightarrow> accepted \<Rightarrow> fault + process" where
  "accept_iteration p a =
     (if exit_status p \<noteq> None then Inr p
      else if acc_ret a < 0 then
        Inr (p\<lparr>events := events p @
                 [Syscall ''accept'' [sockfd p] (acc_ret a), Perror ''Failed to accept connection'']\<rparr>)
      else
        (case enqueue (nodes (globals p)) (queue (globals p)) (acc_ret a) (node a) of
           Inl f \<Rightarrow> Inl f
         | Inr (h, q, evs) \<Rightarrow>
             Inr (p\<lparr>globals := (globals p)\<lparr>nodes := h, queue := q\<rparr>,
                    events := events p @
                      [Syscall ''accept'' [sockfd p] (acc_ret a),
                       Printf ''Accepted connection from %s:%d\<newline>'' [S (peer_addr a), D (peer_port a)]]
                      @ evs\<rparr>)))"

fun accept_loop :: "process \<Rightarrow> accepted list \<Rightarrow> fault + process" where
  "accept_loop p [] = Inr p"
| "accept_loop p (a # as) =
     (case accept_iteration p a of Inl f \<Rightarrow> Inl f | Inr p1 \<Rightarrow> accept_loop p1 as)"

text \<open>
  \<^verbatim>\<open>main\<close> after start-up and the given results of \<^verbatim>\<open>accept\<close>. The loop has no
  exit: the code after it is never reached.
\<close>

definition main :: "setup_env \<Rightarrow> accepted list \<Rightarrow> fault + process" where
  "main env accs = accept_loop (main_setup env) accs"

section \<open>Histories of the client manager\<close>

text \<open>
  Histories of calls on the client manager, starting from a given state. A call returns
  the manager, its events and whether the process was ended during the call; a history
  stops where the process ends.
\<close>

datatype cop = Add int | Remove int | Broadcast string "nat \<Rightarrow> send_result"

fun registry_op :: "client_manager \<Rightarrow> cop \<Rightarrow> fault + (client_manager \<times> event list \<times> bool)" where
  "registry_op cm (Add fd) =
     (case add_client cm fd of Inl f \<Rightarrow> Inl f | Inr (cm1, evs) \<Rightarrow> Inr (cm1, evs, False))"
| "registry_op cm (Remove fd) =
     (case remove_client cm fd of Inl f \<Rightarrow> Inl f | Inr (cm1, evs) \<Rightarrow> Inr (cm1, evs, False))"
| "registry_op cm (Broadcast payload rs) = broadcast_to_clients cm payload rs"

fun registry_ops :: "client_manager \<Rightarrow> cop list \<Rightarrow> fault + client_manager" where
  "registry_ops cm [] = Inr cm"
| "registry_ops cm (c # cs) =
     (case registry_op cm c of
        Inl f \<Rightarrow> Inl f
      | Inr (cm1, evs, killed) \<Rightarrow> if killed then Inr cm1 else registry_ops cm1 cs)"

text \<open>
  The states of an initialised client manager: the array has its \<^verbatim>\<open>MAX_CLIENTS\<close>
  cells and \<^verbatim>\<open>count\<close> lies between zero and \<^verbatim>\<open>MAX_CLIENTS\<close>.
\<close>

definition cm_ok :: "client_manager \<Rightarrow> bool" where
  "cm_ok cm = (int (length (client_fds cm)) = MAX_CLIENTS \<and> 0 \<le> count cm \<and> count cm \<le> MAX_CLIENTS)"

text \<open>
  The events of the loop of \<^verbatim>\<open>broadcast_to_clients\<close> over the indices \<open>ks\<close> when
  every \<^verbatim>\<open>send\<close> returns, \<open>rs k\<close> being the value returned at index \<open>k\<close>: one
  \<^verbatim>\<open>send\<close> per index, followed by a \<^verbatim>\<open>perror\<close> where the call failed.
\<close>

definition send_events :: "client_manager \<Rightarrow> string \<Rightarrow> (nat \<Rightarrow> int) \<Rightarrow> nat list \<Rightarrow> event list" where
  "send_events cm payload rs ks =
     concat (map (\<lambda>k. Send (client_fds cm ! k) payload (rs k)
                        # (if rs k < 0 then [Perror ''Failed to send data to client''] else [])) ks)"

text \<open>A small well-formed client manager: descriptors 7 and 8 registered, the other cells zero.\<close>

definition two_clients :: client_manager where
  "two_clients = \<lparr>client_fds = [7, 8] @ replicate 98 0, count = 2\<rparr>"


section \<open>Concrete inputs\<close>

text \<open>
  Inputs for concrete runs. \<open>sys r\<close> is a system call that returns \<open>r\<close>, with no
  bytes received and a successful \<^verbatim>\<open>malloc\<close>. \<open>setup_ok\<close> is a start-up in which
  \<^verbatim>\<open>setsockopt\<close> fails and every later call succeeds, with 3 as the listening socket;
  in \<open>bind_fails\<close> it is \<^verbatim>\<open>bind\<close> that fails. \<open>accept_fails\<close> is an
  \<^verbatim>\<open>accept\<close> that returns an error.
  \<open>accept_5\<close> is an \<^verbatim>\<open>accept\<close> that returns descriptor 5, and \<open>queued_5\<close> the
  globals once \<^verbatim>\<open>main\<close> has enqueued it. \<open>peer_closes\<close> is the
  schedule of a connection whose sender thread is created, sends one message, after which
  the peer closes the connection: the worker's \<^verbatim>\<open>recv\<close> returns 0 and the worker
  closes the descriptor, the sender's next \<^verbatim>\<open>send\<close> fails and the sender takes its
  last step.
\<close>

definition sys :: "int \<Rightarrow> sysret" where
  "sys r = \<lparr>ret = r, bytes = [], block = Some 0\<rparr>"

definition setup_ok :: setup_env where
  "setup_ok = \<lparr>stack_sockfd = 0, setsockopt_ret = - 1, socket_ret = 3, bind_ret = 0,
               listen_ret = 0, create_ret = (\<lambda>i. 0)\<rparr>"

definition bind_fails :: setup_env where
  "bind_fails = \<lparr>stack_sockfd = 0, setsockopt_ret = 0, socket_ret = 3, bind_ret = - 1,
               listen_ret = 0, create_ret = (\<lambda>i. 0)\<rparr>"

definition accept_fails :: accepted where
  "accept_fails = \<lparr>acc_ret = - 1, peer_addr = [], peer_port = 0, node = None\<rparr>"

definition accept_5 :: accepted where
  "accept_5 = \<lparr>acc_ret = 5, peer_addr = ''127.0.0.1'', peer_port = 40000, node = Some 1\<rparr>"

definition queued_5 :: server where
  "queued_5 = \<lparr>nodes = [1 \<mapsto> \<lparr>connfd = 5, next = None\<rparr>],
               queue = \<lparr>head = Some 1, tail = Some 1\<rparr>,
               clients = \<lparr>client_fds = [], count = 0\<rparr>\<rparr>"

definition peer_closes :: "turn list" where
  "peer_closes =
     [WorkerTurn (sys 0), SenderTurn 22, WorkerTurn (sys 0), WorkerTurn (sys 0),
      SenderTurn (- 1), SenderTurn 0]"

definition trace_of :: "fault + conn \<Rightarrow> event list" where
  "trace_of r = (case r of Inl f \<Rightarrow> [] | Inr c \<Rightarrow> c_trace c)"

section \<open>Properties of the client manager\<close>

lemma cm_ok_init: "init_client_manager (Some cells) = Inr cm \<Longrightarrow> cm_ok cm \<and> count cm = 0"
  by (auto simp: init_client_manager_def cm_ok_def MAX_CLIENTS_def)

lemma add_client_ok:
  "cm_ok cm \<Longrightarrow> \<exists>cm' evs. add_client cm fd = Inr (cm', evs) \<and> cm_ok cm'"
  by (auto simp: add_client_def cm_ok_def)

lemma remove_scan_ok:
  "cm_ok cm \<Longrightarrow> \<exists>cm' evs. remove_scan cm fd i = Inr (cm', evs) \<and> cm_ok cm'"
proof (induction cm fd i rule: remove_scan.induct)
  case (1 cm fd i)
  show ?case
  proof (cases "int i < count cm \<and> client_fds cm ! i \<noteq> fd")
    case True
    with 1 show ?thesis
      by (subst remove_scan.simps) (auto simp: cm_ok_def)
  next
    case False
    with 1(2) show ?thesis
      by (subst remove_scan.simps) (auto simp: cm_ok_def)
  qed
qed

lemma broadcast_scan_total:
  "nat (count cm) \<le> length (client_fds cm) \<Longrightarrow>
   \<exists>evs killed. broadcast_scan cm payload rs i = Inr (evs, killed)"
proof (induction cm payload rs i rule: broadcast_scan.induct)
  case (1 cm payload rs i)
  show ?case
  proof (cases "int i < count cm")
    case True
    then have il: "i < length (client_fds cm)" using 1(2) by simp
    show ?thesis
    proof (cases "rs i")
      case (Returns r)
      from 1(1)[OF True il Returns 1(2)] obtain evs killed where
        "broadcast_scan cm payload rs (Suc i) = Inr (evs, killed)" by blast
      with True il Returns show ?thesis
        by (subst broadcast_scan.simps) auto
    next
      case Raises_SIGPIPE
      with True il show ?thesis
        by (subst broadcast_scan.simps) auto
    qed
  next
    case False
    then show ?thesis
      by (subst broadcast_scan.simps) auto
  qed
qed

lemma broadcast_scan_events:
  "nat (count cm) \<le> length (client_fds cm) \<Longrightarrow> \<forall>k. R k = Returns (rs k) \<Longrightarrow>
   broadcast_scan cm payload R i =
     Inr (concat (map (\<lambda>k. Send (client_fds cm ! k) payload (rs k)
                        # (if rs k < 0 then [Perror ''Failed to send data to client''] else []))
                  [i..<nat (count cm)]), False)"
proof (induction cm payload R i rule: broadcast_scan.induct)
  case (1 cm payload R i)
  show ?case
  proof (cases "int i < count cm")
    case True
    then have il: "i < nat (count cm)" by simp
    then have len: "i < length (client_fds cm)" using 1(2) by simp
    from 1(3) have ri: "R i = Returns (rs i)" by simp
    from 1(1)[OF True len ri 1(2) 1(3)] True len ri il show ?thesis
      by (subst broadcast_scan.simps) (simp add: upt_conv_Cons)
  next
    case False
    then show ?thesis
      by (subst broadcast_scan.simps) simp
  qed
qed

lemma remove_scan_absent:
  "nat (count cm) \<le> length (client_fds cm) \<Longrightarrow>
   \<forall>k. i \<le> k \<and> k < nat (count cm) \<longrightarrow> client_fds cm ! k \<noteq> fd \<Longrightarrow>
   remove_scan cm fd i = Inr (cm, [])"
proof (induction cm fd i rule: remove_scan.induct)
  case (1 cm fd i)
  show ?case
  proof (cases "int i < count cm")
    case True
    then have il: "i < nat (count cm)" by simp
    then have "i < length (client_fds cm)" "client_fds cm ! i \<noteq> fd" using 1(2,3) by auto
    with True 1 show ?thesis
      by (subst remove_scan.simps) simp
  next
    case False
    then show ?thesis
      by (subst remove_scan.simps) simp
  qed
qed

lemma remove_scan_found:
  "nat (count cm) \<le> length (client_fds cm) \<Longrightarrow> i \<le> j \<Longrightarrow> j < nat (count cm) \<Longrightarrow>
   client_fds cm ! j = fd \<Longrightarrow> \<forall>k. i \<le> k \<and> k < j \<longrightarrow> client_fds cm ! k \<noteq> fd \<Longrightarrow>
   remove_scan cm fd i =
     Inr (cm\<lparr>client_fds := (client_fds cm)[j := client_fds cm ! nat (count cm - 1)],
             count := count cm - 1\<rparr>,
          [Printf ''Client %d removed. Total clients: %d\<newline>'' [D fd, D (count cm - 1)]])"
proof (induction cm fd i rule: remove_scan.induct)
  case (1 cm fd i)
  from 1(3,4) have lt: "int i < count cm" by simp
  from 1(2,3,4) have il: "i < length (client_fds cm)" by simp
  from 1(2,4) have last_in: "nat (count cm - 1) < length (client_fds cm)" by simp
  show ?case
  proof (cases "i = j")
    case True
    with lt il last_in 1(5) show ?thesis
      by (subst remove_scan.simps) simp
  next
    case False
    with 1(3) have ij: "i < j" by simp
    with 1(6) have ne: "client_fds cm ! i \<noteq> fd" by simp
    have "remove_scan cm fd (Suc i) =
      Inr (cm\<lparr>client_fds := (client_fds cm)[j := client_fds cm ! nat (count cm - 1)],
             count := count cm - 1\<rparr>,
          [Printf ''Client %d removed. Total clients: %d\<newline>'' [D fd, D (count cm - 1)]])"
      using 1(1)[OF lt il ne 1(2) _ 1(4) 1(5)] ij 1(6) by simp
    with lt il ne show ?thesis
      by (subst remove_scan.simps) simp
  qed
qed

lemma first_index:
  "x \<in> set ys \<Longrightarrow> \<exists>j. j < length ys \<and> ys ! j = x \<and> (\<forall>k<j. ys ! k \<noteq> x)"
proof (induction ys)
  case Nil
  then show ?case by simp
next
  case (Cons y ys)
  show ?case
  proof (cases "y = x")
    case True
    then show ?thesis by (intro exI[of _ 0]) simp
  next
    case False
    with Cons obtain j where j: "j < length ys" "ys ! j = x" "\<forall>k<j. ys ! k \<noteq> x" by auto
    show ?thesis
    proof (intro exI[of _ "Suc j"] conjI allI impI)
      fix k assume "k < Suc j"
      with j(3) False show "(y # ys) ! k \<noteq> x" by (cases k) auto
    qed (use j in auto)
  qed
qed

lemma cm_ok_le: "cm_ok cm \<Longrightarrow> nat (count cm) \<le> length (client_fds cm)"
  unfolding cm_ok_def by linarith


lemma remove_client_absent:
  assumes ok: "cm_ok cm" and absent: "fd \<notin> registered cm"
  shows "remove_client cm fd = Inr (cm, [])"
proof -
  from ok have le: "nat (count cm) \<le> length (client_fds cm)" by (rule cm_ok_le)
  from absent le have "\<forall>k. 0 \<le> k \<and> k < nat (count cm) \<longrightarrow> client_fds cm ! k \<noteq> fd"
    by (auto simp: registered_def active_def in_set_conv_nth)
  from remove_scan_absent[OF le this] show ?thesis by (simp add: remove_client_def)
qed

lemma remove_client_present:
  assumes ok: "cm_ok cm" and present: "fd \<in> registered cm"
  shows "\<exists>j. j < nat (count cm) \<and> client_fds cm ! j = fd \<and> (\<forall>k<j. client_fds cm ! k \<noteq> fd) \<and>
              remove_client cm fd =
                Inr (cm\<lparr>client_fds := (client_fds cm)[j := client_fds cm ! nat (count cm - 1)],
                        count := count cm - 1\<rparr>,
                     [Printf ''Client %d removed. Total clients: %d\<newline>'' [D fd, D (count cm - 1)]])"
proof -
  from ok have le: "nat (count cm) \<le> length (client_fds cm)" by (rule cm_ok_le)
  from present obtain j where j: "j < length (active cm)" "active cm ! j = fd" "\<forall>k<j. active cm ! k \<noteq> fd"
    using first_index[of fd "active cm"] by (auto simp: registered_def)
  from j(1) le have jn: "j < nat (count cm)" by (simp add: active_def)
  from j(2) jn have jf: "client_fds cm ! j = fd" by (simp add: active_def)
  from j(3) jn have jm: "\<forall>k. 0 \<le> k \<and> k < j \<longrightarrow> client_fds cm ! k \<noteq> fd" by (simp add: active_def)
  from remove_scan_found[OF le _ jn jf jm] jn jf jm show ?thesis
    by (auto simp: remove_client_def)
qed

lemma broadcast_unchanged:
  "cm_ok cm \<Longrightarrow> \<exists>evs killed. broadcast_to_clients cm payload rs = Inr (cm, evs, killed)"
  using broadcast_scan_total[OF cm_ok_le, of cm payload rs 0]
  by (auto simp: broadcast_to_clients_def)

lemma registry_op_ok:
  assumes "cm_ok cm"
  shows "\<exists>cm' evs killed. registry_op cm c = Inr (cm', evs, killed) \<and> cm_ok cm'"
proof (cases c)
  case (Add fd)
  with add_client_ok[OF assms, of fd] show ?thesis by auto
next
  case (Remove fd)
  with remove_scan_ok[OF assms, of fd 0] show ?thesis by (auto simp: remove_client_def)
next
  case (Broadcast payload rs)
  with broadcast_unchanged[OF assms, of payload rs] assms show ?thesis by auto
qed

lemma registry_ops_ok:
  "cm_ok cm \<Longrightarrow> \<exists>cm'. registry_ops cm cs = Inr cm' \<and> cm_ok cm'"
proof (induction cs arbitrary: cm)
  case Nil
  then show ?case by simp
next
  case (Cons c cs)
  from registry_op_ok[OF Cons.prems] obtain cm1 evs killed
    where step: "registry_op cm c = Inr (cm1, evs, killed)" and ok1: "cm_ok cm1" by blast
  from Cons.IH[OF ok1] step ok1 show ?case by simp
qed

lemma mset_after_remove:
  assumes le: "n \<le> length xs" and j: "j < n" 
  shows "mset (take (n - 1) (xs[j := xs ! (n - 1)])) = mset (take n xs) - {#xs ! j#}"
proof -
  from j have n: "n = Suc (n - 1)" by simp
  from le j have lt: "n - 1 < length xs" by simp
  have split: "take n xs = take (n - 1) xs @ [xs ! (n - 1)]"
    using take_Suc_conv_app_nth[OF lt] n by simp
  show ?thesis
  proof (cases "j = n - 1")
    case True
    then show ?thesis using split by simp
  next
    case False
    with j have jl: "j < n - 1" by simp
    with lt have jz: "j < length (take (n - 1) xs)" by simp
    from jl have nth: "take (n - 1) xs ! j = xs ! j" by simp
    have mem: "xs ! j \<in># mset (take (n - 1) xs)"
      using jz nth by (metis nth_mem set_mset_mset)
    have "take (n - 1) (xs[j := xs ! (n - 1)]) = (take (n - 1) xs)[j := xs ! (n - 1)]"
      using jl by (simp add: take_update_swap)
    then have "mset (take (n - 1) (xs[j := xs ! (n - 1)])) =
        add_mset (xs ! (n - 1)) (mset (take (n - 1) xs) - {#xs ! j#})"
      using jz nth by (simp add: mset_update)
    also have "\<dots> = mset (take n xs) - {#xs ! j#}"
      using split mem by simp
    finally show ?thesis .
  qed
qed

lemma remove_client_mset:
  assumes ok: "cm_ok cm" and mem: "fd \<in> registered cm"
  shows "\<exists>cm1 evs. remove_client cm fd = Inr (cm1, evs) \<and> cm_ok cm1 \<and>
           count cm1 = count cm - 1 \<and> mset (active cm1) = mset (active cm) - {#fd#}"
proof -
  from remove_client_present[OF ok mem] obtain j where
    j: "j < nat (count cm)" "client_fds cm ! j = fd" and
    r: "remove_client cm fd =
          Inr (cm\<lparr>client_fds := (client_fds cm)[j := client_fds cm ! nat (count cm - 1)],
                  count := count cm - 1\<rparr>,
               [Printf ''Client %d removed. Total clients: %d\<newline>'' [D fd, D (count cm - 1)]])"
    by blast
  let ?cm1 = "cm\<lparr>client_fds := (client_fds cm)[j := client_fds cm ! nat (count cm - 1)],
                  count := count cm - 1\<rparr>"
  from j(1) have pos: "0 < count cm" by simp
  then have n1: "nat (count cm - 1) = nat (count cm) - 1" by simp
  from ok pos have ok1: "cm_ok ?cm1" by (simp add: cm_ok_def)
  from mset_after_remove[OF cm_ok_le[OF ok] j(1)] j(2) n1
  have "mset (active ?cm1) = mset (active cm) - {#fd#}" by (simp add: active_def)
  with r ok1 show ?thesis by simp
qed

lemma two_clients_ok: "cm_ok two_clients"
  by (simp add: cm_ok_def two_clients_def MAX_CLIENTS_def)

lemma two_clients_active: "active two_clients = [7, 8]"
  by (simp add: active_def two_clients_def)

lemma sent_to_send_events:
  "sent_to (send_events cm payload rs ks) = map (\<lambda>k. (client_fds cm ! k, payload)) ks"
  by (induction ks) (simp_all add: send_events_def)

lemma delivered_send_events:
  "delivered (send_events cm payload rs ks) =
     map (\<lambda>k. (client_fds cm ! k, payload)) (filter (\<lambda>k. 0 \<le> rs k) ks)"
  by (induction ks) (simp_all add: send_events_def)

lemma perrors_send_events:
  "perrors (send_events cm payload rs ks) =
     map (\<lambda>k. ''Failed to send data to client'') (filter (\<lambda>k. rs k < 0) ks)"
  by (induction ks) (simp_all add: send_events_def)

lemma broadcast_events:
  "cm_ok cm \<Longrightarrow>
   broadcast_to_clients cm payload (\<lambda>k. Returns (rs k)) =
     Inr (cm, send_events cm payload rs [0..<nat (count cm)], False)"
  using broadcast_scan_events[OF cm_ok_le, of cm "\<lambda>k. Returns (rs k)" rs payload 0]
  by (simp add: broadcast_to_clients_def send_events_def)

lemma nth_upt_active:
  "nat (count cm) \<le> length (client_fds cm) \<Longrightarrow>
   map (\<lambda>k. (client_fds cm ! k, payload)) [0..<nat (count cm)] = map (\<lambda>fd. (fd, payload)) (active cm)"
  by (simp add: active_def list_eq_iff_nth_eq)

lemma filter_upt_one:
  assumes "j < n" "P j = False" "\<forall>k. k < n \<and> k \<noteq> j \<longrightarrow> P k"
  shows "filter P [0..<n] = [0..<j] @ [Suc j..<n]"
proof -
  have "[0..<n] = [0..<j] @ j # [Suc j..<n]"
    using assms(1) by (metis le_add1 less_imp_add_positive upt_add_eq_append
        upt_conv_Cons plus_nat.add_0)
  moreover have "filter P [0..<j] = [0..<j]" using assms by (auto simp: filter_id_conv)
  moreover have "filter P [Suc j..<n] = [Suc j..<n]" using assms by (auto simp: filter_id_conv)
  ultimately show ?thesis using assms(2) by simp
qed

lemma filter_upt_only:
  assumes "j < n" "P j" "\<forall>k. k < n \<and> k \<noteq> j \<longrightarrow> \<not> P k"
  shows "filter P [0..<n] = [j]"
proof -
  have "[0..<n] = [0..<j] @ j # [Suc j..<n]"
    using assms(1) by (metis le_add1 less_imp_add_positive upt_add_eq_append
        upt_conv_Cons plus_nat.add_0)
  moreover have "filter P [0..<j] = []" using assms by (auto simp: filter_empty_conv)
  moreover have "filter P [Suc j..<n] = []" using assms by (auto simp: filter_empty_conv)
  ultimately show ?thesis using assms(2) by simp
qed

lemma count_list_pair: "count_list (map (\<lambda>x. (x, p)) xs) (y, p) = count_list xs y"
  by (induction xs) simp_all

lemma add_client_active:
  assumes ok: "cm_ok cm" and room: "count cm < MAX_CLIENTS"
  shows "\<exists>cm1 evs. add_client cm fd = Inr (cm1, evs) \<and> cm_ok cm1 \<and>
           count cm1 = count cm + 1 \<and> active cm1 = active cm @ [fd]"
proof -
  let ?n = "nat (count cm)"
  from ok room have lt: "?n < length (client_fds cm)" and nn: "0 \<le> count cm"
    unfolding cm_ok_def by linarith+
  let ?cm1 = "cm\<lparr>client_fds := (client_fds cm)[?n := fd], count := count cm + 1\<rparr>"
  have r: "add_client cm fd =
      Inr (?cm1, [Printf ''New client added. Total clients: %d\<newline>'' [D (count cm + 1)]])"
    using room lt nn by (simp add: add_client_def)
  from nn have suc: "nat (count cm + 1) = Suc ?n" by simp
  have "take (Suc ?n) ((client_fds cm)[?n := fd]) = take ?n (client_fds cm) @ [fd]"
    using lt by (simp add: take_Suc_conv_app_nth)
  then have a: "active ?cm1 = active cm @ [fd]"
    using suc by (simp add: active_def)
  from ok room have "cm_ok ?cm1" by (simp add: cm_ok_def)
  with r a show ?thesis by simp
qed

lemma adds_fill:
  "cm_ok cm \<Longrightarrow> count cm + int (length xs) \<le> MAX_CLIENTS \<Longrightarrow>
   \<exists>cm'. registry_ops cm (map Add xs) = Inr cm' \<and> count cm' = count cm + int (length xs)"
proof (induction xs arbitrary: cm)
  case Nil
  then show ?case by simp
next
  case (Cons x xs)
  from Cons.prems(2) have room: "count cm < MAX_CLIENTS" by simp
  from add_client_active[OF Cons.prems(1) room, of x] obtain cm1 evs where
    a: "add_client cm x = Inr (cm1, evs)" "cm_ok cm1" "count cm1 = count cm + 1" by blast
  from Cons.prems(2) a(3) have "count cm1 + int (length xs) \<le> MAX_CLIENTS" by simp
  from Cons.IH[OF a(2) this] a show ?case by auto
qed

lemma broadcast_sent_to_all:
  assumes ok: "cm_ok cm"
  shows "\<exists>evs. broadcast_to_clients cm payload (\<lambda>k. Returns (rs k)) = Inr (cm, evs, False) \<and>
           sent_to evs = map (\<lambda>fd. (fd, payload)) (active cm)"
  using broadcast_events[OF ok, of payload rs] nth_upt_active[OF cm_ok_le[OF ok], of payload]
  by (simp add: sent_to_send_events)

text \<open>
  When every \<^verbatim>\<open>send\<close> of a broadcast returns, failures are isolated: every registered
  descriptor is sent the payload, and if exactly one call fails, one \<^verbatim>\<open>perror\<close>
  line is logged and the other calls have handed the payload over.
\<close>

lemma broadcast_returned_failures:
  assumes ok: "cm_ok cm"
  shows "\<exists>evs. broadcast_to_clients cm payload (\<lambda>k. Returns (rs k)) = Inr (cm, evs, False) \<and>
           sent_to evs = map (\<lambda>fd. (fd, payload)) (active cm) \<and>
           (\<forall>j. j < nat (count cm) \<and> rs j < 0 \<and> (\<forall>k. k < nat (count cm) \<and> k \<noteq> j \<longrightarrow> 0 \<le> rs k) \<longrightarrow>
                perrors evs = [''Failed to send data to client''] \<and>
                delivered evs =
                  map (\<lambda>fd. (fd, payload)) (take j (active cm) @ drop (Suc j) (active cm)) \<and>
                length (delivered evs) = nat (count cm) - 1)"
proof -
  let ?n = "nat (count cm)"
  let ?evs = "send_events cm payload rs [0..<?n]"
  from ok have le: "?n \<le> length (client_fds cm)" by (rule cm_ok_le)
  have run: "broadcast_to_clients cm payload (\<lambda>k. Returns (rs k)) = Inr (cm, ?evs, False)"
    using ok by (rule broadcast_events)
  have all: "sent_to ?evs = map (\<lambda>fd. (fd, payload)) (active cm)"
    using nth_upt_active[OF le] by (simp add: sent_to_send_events)
  have one: "perrors ?evs = [''Failed to send data to client''] \<and>
             delivered ?evs = map (\<lambda>fd. (fd, payload)) (take j (active cm) @ drop (Suc j) (active cm)) \<and>
             length (delivered ?evs) = ?n - 1"
    if j: "j < ?n" "rs j < 0" "\<forall>k. k < ?n \<and> k \<noteq> j \<longrightarrow> 0 \<le> rs k" for j
  proof -
    have f1: "filter (\<lambda>k. rs k < 0) [0..<?n] = [j]"
      using j by (intro filter_upt_only) auto
    have f2: "filter (\<lambda>k. 0 \<le> rs k) [0..<?n] = [0..<j] @ [Suc j..<?n]"
      using j by (intro filter_upt_one) auto
    have len: "length (active cm) = ?n" using le by (simp add: active_def)
    have t: "map (\<lambda>k. client_fds cm ! k) [0..<j] = take j (active cm)"
      using j(1) len by (simp add: active_def list_eq_iff_nth_eq)
    have d: "map (\<lambda>k. client_fds cm ! k) [Suc j..<?n] = drop (Suc j) (active cm)"
      using j(1) len by (simp add: active_def list_eq_iff_nth_eq)
    have "map (\<lambda>k. (client_fds cm ! k, payload)) ([0..<j] @ [Suc j..<?n]) =
          map (\<lambda>fd. (fd, payload)) (map (\<lambda>k. client_fds cm ! k) [0..<j] @ map (\<lambda>k. client_fds cm ! k) [Suc j..<?n])"
      by simp
    with t d have dl: "delivered ?evs = map (\<lambda>fd. (fd, payload)) (take j (active cm) @ drop (Suc j) (active cm))"
      by (simp only: delivered_send_events f2)
    have "length (delivered ?evs) = ?n - 1"
      using j(1) by (simp add: delivered_send_events f2)
    with dl show ?thesis by (simp add: perrors_send_events f1)
  qed
  from run all one show ?thesis by blast
qed



section \<open>Properties of the connection queue\<close>

lemma queue_repr_init: "queue_repr h init_queue []"
  by (simp add: queue_repr_def init_queue_def fds_def)

lemma chain_allocated: "chain h p as \<Longrightarrow> a \<in> set as \<Longrightarrow> \<exists>nd. h a = Some nd"
  by (induction as arbitrary: p) (auto split: option.splits)

lemma chain_frame: "a \<notin> set as \<Longrightarrow> chain (h(a := v)) p as = chain h p as"
  by (induction as arbitrary: p) (auto split: option.splits)

lemma fds_frame: "a \<notin> set as \<Longrightarrow> fds (h(a := v)) as = fds h as"
  by (simp add: fds_def)

lemma fds_relink:
  "h t = Some nd \<Longrightarrow> fds (h(t \<mapsto> nd\<lparr>next := n\<rparr>)) as = fds h as"
  by (auto simp: fds_def)

lemma chain_link_last:
  "chain h p as \<Longrightarrow> as \<noteq> [] \<Longrightarrow> distinct as \<Longrightarrow> a \<notin> set as \<Longrightarrow>
   h a = Some \<lparr>connfd = fd, next = None\<rparr> \<Longrightarrow> h (last as) = Some nd \<Longrightarrow>
   chain (h(last as \<mapsto> nd\<lparr>next := Some a\<rparr>)) p (as @ [a])"
proof (induction as arbitrary: p)
  case Nil
  then show ?case by simp
next
  case (Cons b bs)
  show ?case
  proof (cases "bs = []")
    case True
    with Cons.prems show ?thesis by (auto split: option.splits)
  next
    case False
    from Cons.prems(1) obtain nb where nb: "p = Some b" "h b = Some nb" "chain h (next nb) bs"
      by (auto split: option.splits)
    from Cons.prems(3) False have bl: "b \<noteq> last bs" by auto
    from Cons.prems False have "chain (h(last bs \<mapsto> nd\<lparr>next := Some a\<rparr>)) (next nb) (bs @ [a])"
      using nb(3) by (intro Cons.IH) auto
    moreover have "(h(last (b # bs) \<mapsto> nd\<lparr>next := Some a\<rparr>)) b = Some nb"
      using nb(2) bl False by simp
    moreover have "last (b # bs) = last bs" using False by simp
    ultimately show ?thesis using nb(1) by (simp del: fun_upd_apply last.simps)
  qed
qed

lemma enqueue_repr:
  assumes repr: "queue_repr h q xs" and fresh: "h a = None"
  shows "\<exists>h' q'. enqueue h q fd (Some a) = Inr (h', q', []) \<and> queue_repr h' q' (xs @ [fd])"
proof -
  from repr obtain as where as: "chain h (head q) as" "distinct as"
    "tail q = (if as = [] then None else Some (last as))" "xs = fds h as"
    by (auto simp: queue_repr_def)
  have notin: "a \<notin> set as"
  proof
    assume "a \<in> set as"
    from chain_allocated[OF as(1) this] fresh show False by simp
  qed
  let ?h1 = "h(a \<mapsto> \<lparr>connfd = fd, next = None\<rparr>)"
  show ?thesis
  proof (cases "as = []")
    case True
    with as have e: "enqueue h q fd (Some a) = Inr (?h1, q\<lparr>head := Some a, tail := Some a\<rparr>, [])"
      by (simp add: enqueue_def)
    have "queue_repr ?h1 (q\<lparr>head := Some a, tail := Some a\<rparr>) (xs @ [fd])"
      unfolding queue_repr_def using True as(4)
      by (intro exI[of _ "[a]"]) (simp add: fds_def)
    with e show ?thesis by simp
  next
    case False
    then have t: "tail q = Some (last as)" using as(3) by simp
    from False have lin: "last as \<in> set as" by simp
    from chain_allocated[OF as(1) lin] obtain nd where nd: "h (last as) = Some nd" by blast
    from lin notin have ne: "last as \<noteq> a" by auto
    let ?h2 = "?h1(last as \<mapsto> nd\<lparr>next := Some a\<rparr>)"
    from t nd ne have e: "enqueue h q fd (Some a) = Inr (?h2, q\<lparr>tail := Some a\<rparr>, [])"
      by (simp add: enqueue_def Let_def)
    have c1: "chain ?h1 (head q) as" using as(1) notin by (simp add: chain_frame)
    have c2: "chain ?h2 (head q) (as @ [a])"
      using c1 False as(2) notin nd ne by (intro chain_link_last) auto
    have f: "fds ?h2 (as @ [a]) = xs @ [fd]"
    proof -
      have "fds ?h2 (as @ [a]) = fds ?h1 (as @ [a])"
        using nd ne by (intro fds_relink) simp
      also have "\<dots> = fds ?h1 as @ [fd]" by (simp add: fds_def)
      also have "fds ?h1 as = fds h as" using notin by (rule fds_frame)
      finally show ?thesis unfolding as(4) .
    qed
    have "queue_repr ?h2 (q\<lparr>tail := Some a\<rparr>) (xs @ [fd])"
      unfolding queue_repr_def using c2 as(2) notin f
      by (intro exI[of _ "as @ [a]"]) simp
    with e show ?thesis by simp
  qed
qed

lemma dequeue_repr_empty: "queue_repr h q [] \<Longrightarrow> dequeue h q = Inr None"
  by (auto simp: queue_repr_def fds_def dequeue_def)

lemma dequeue_repr:
  assumes repr: "queue_repr h q (x # xs)"
  shows "\<exists>h' q'. dequeue h q = Inr (Some (x, h', q')) \<and> queue_repr h' q' xs \<and>
                 (\<forall>a. h a = None \<longrightarrow> h' a = None)"
proof -
  from repr obtain as where as: "chain h (head q) as" "distinct as"
    "tail q = (if as = [] then None else Some (last as))" "x # xs = fds h as"
    by (auto simp: queue_repr_def)
  from as(4) obtain b bs where bs: "as = b # bs" by (cases as) (auto simp: fds_def)
  from as(1) bs obtain nd where nd: "head q = Some b" "h b = Some nd" "chain h (next nd) bs"
    by (auto split: option.splits)
  from as(4) bs nd have x: "x = connfd nd" and xs: "xs = fds h bs" by (simp_all add: fds_def)
  from as(2) bs have nb: "b \<notin> set bs" and dbs: "distinct bs" by simp_all
  let ?h = "h(b := None)"
  let ?q = "if next nd = None then q\<lparr>head := next nd, tail := None\<rparr> else q\<lparr>head := next nd\<rparr>"
  have d: "dequeue h q = Inr (Some (x, ?h, ?q))"
    using nd x by (simp add: dequeue_def Let_def)
  have c: "chain ?h (next nd) bs" using nd(3) nb by (simp add: chain_frame)
  have emp: "(next nd = None) = (bs = [])" using nd(3) by (cases bs) auto
  have tl: "tail ?q = (if bs = [] then None else Some (last bs))"
    using as(3) bs emp by auto
  have hd: "head ?q = next nd" by simp
  have "queue_repr ?h ?q xs"
    unfolding queue_repr_def using c dbs tl hd xs nb
    by (intro exI[of _ bs]) (simp add: fds_frame)
  with d show ?thesis by auto
qed

lemma queue_ops_fifo:
  "queue_repr h q xs \<Longrightarrow> mallocs_fresh h q ops \<Longrightarrow>
   \<exists>h' q' es ds. queue_ops h q ops = Inr (h', q', es, ds) \<and>
      ds = take (length ds) (xs @ es) \<and> queue_repr h' q' (drop (length ds) (xs @ es))"
proof (induction ops arbitrary: h q xs)
  case Nil
  then show ?case by simp
next
  case (Cons op ops)
  show ?case
  proof (cases op)
    case (Enq fd nodeopt)
    show ?thesis
    proof (cases nodeopt)
      case None
      have e: "enqueue h q fd None = Inr (h, q, [Perror ''Failed to allocate memory for connection node''])"
        by (simp add: enqueue_def)
      from Cons.prems(2) Enq None e have "mallocs_fresh h q ops" by simp
      from Cons.IH[OF Cons.prems(1) this] Enq None e show ?thesis by auto
    next
      case (Some a)
      from Cons.prems(2) Enq Some have fresh: "h a = None" by simp
      from enqueue_repr[OF Cons.prems(1) fresh, of fd] obtain h1 q1 where
        e: "enqueue h q fd (Some a) = Inr (h1, q1, [])" and r1: "queue_repr h1 q1 (xs @ [fd])"
        by blast
      from Cons.prems(2) Enq Some e have "mallocs_fresh h1 q1 ops" by simp
      from Cons.IH[OF r1 this] Enq Some e show ?thesis by auto
    qed
  next
    case Deq
    show ?thesis
    proof (cases xs)
      case Nil
      with Cons.prems(1) have d: "dequeue h q = Inr None" by (simp add: dequeue_repr_empty)
      from Cons.prems(2) Deq d have "mallocs_fresh h q ops" by simp
      from Cons.IH[OF Cons.prems(1) this] Deq d show ?thesis by simp
    next
      case (Cons x xs')
      with Cons.prems(1) have "queue_repr h q (x # xs')" by simp
      from dequeue_repr[OF this] obtain h1 q1 where
        d: "dequeue h q = Inr (Some (x, h1, q1))" and r1: "queue_repr h1 q1 xs'" by blast
      from Cons.prems(2) Deq d have "mallocs_fresh h1 q1 ops" by simp
      from Cons.IH[OF r1 this] Deq d Cons show ?thesis by auto
    qed
  qed
qed

lemma example_history_fresh:
  "mallocs_fresh Map.empty init_queue [Enq 5 (Some 1), Enq 6 (Some 2), Deq, Enq 7 None, Enq 8 (Some 1), Deq, Deq, Deq]"
  by (simp add: enqueue_def dequeue_def init_queue_def Let_def)

lemma example_history_run:
  "\<exists>h q. queue_ops Map.empty init_queue [Enq 5 (Some 1), Enq 6 (Some 2), Deq, Enq 7 None, Enq 8 (Some 1), Deq, Deq, Deq]
    = Inr (h, q, [5, 6, 8], [5, 6, 8])"
  by (simp add: enqueue_def dequeue_def init_queue_def Let_def)

section \<open>Properties of the threads\<close>

lemma test_message_0: "test_message 0 = ''Server test message #0''"
  by (simp add: test_message_def show_int_def decimal.simps)

lemma test_message_1: "test_message 1 = ''Server test message #1''"
  by (simp add: test_message_def show_int_def decimal.simps)

lemma create_workers_ok: "create_workers (\<lambda>i. 0) fd 0 =
   (4, None, [Syscall ''pthread_create'' [0] 0, Syscall ''pthread_create'' [1] 0,
              Syscall ''pthread_create'' [2] 0, Syscall ''pthread_create'' [3] 0])"
  by (simp add: create_workers.simps NUM_WORKER_THREADS_def)


lemma main_setup_ok:
  "main_setup setup_ok =
     \<lparr>globals = \<lparr>nodes = Map.empty, queue = \<lparr>head = None, tail = None\<rparr>,
                 clients = \<lparr>client_fds = [], count = 0\<rparr>\<rparr>,
      exit_status = None, started = 4, sockfd = 3,
      events =
        [Syscall ''setsockopt'' [0] (- 1), Syscall ''socket'' [] 3,
         Syscall ''bind'' [3, 8080] 0, Syscall ''listen'' [3, 10] 0,
         Syscall ''pthread_create'' [0] 0, Syscall ''pthread_create'' [1] 0,
         Syscall ''pthread_create'' [2] 0, Syscall ''pthread_create'' [3] 0,
         Printf ''Server is listening on port %d...\<newline>'' [D 8080]]\<rparr>"
  by (simp add: main_setup_def setup_ok_def create_workers_ok init_queue_def PORT_def BACKLOG_def)

lemma accept_iteration_running:
  "exit_status p = None \<Longrightarrow> accept_iteration p a = Inr p' \<Longrightarrow> exit_status p' = None"
  by (auto simp: accept_iteration_def split: if_splits sum.splits)

lemma accept_iteration_exited:
  "exit_status p \<noteq> None \<Longrightarrow> accept_iteration p a = Inr p"
  by (simp add: accept_iteration_def)

lemma accept_loop_exited:
  "exit_status p \<noteq> None \<Longrightarrow> accept_loop p accs = Inr p"
  by (induction accs) (simp_all add: accept_iteration_exited)

lemma accept_loop_running:
  "exit_status p = None \<Longrightarrow> accept_loop p accs = Inr p' \<Longrightarrow> exit_status p' = None"
proof (induction accs arbitrary: p)
  case Nil
  then show ?case by simp
next
  case (Cons a accs)
  from Cons.prems(2) obtain p1 where s: "accept_iteration p a = Inr p1" and r: "accept_loop p1 accs = Inr p'"
    by (auto split: sum.splits)
  from accept_iteration_running[OF Cons.prems(1) s] have "exit_status p1 = None" .
  from Cons.IH[OF this r] show ?case .
qed

lemma accept_failure:
  "exit_status p = None \<Longrightarrow> acc_ret a < 0 \<Longrightarrow>
   accept_iteration p a =
     Inr (p\<lparr>events := events p @
             [Syscall ''accept'' [sockfd p] (acc_ret a), Perror ''Failed to accept connection'']\<rparr>)"
  by (simp add: accept_iteration_def)

lemma accept_loop_failures:
  "exit_status p = None \<Longrightarrow> \<forall>a \<in> set accs. acc_ret a < 0 \<Longrightarrow>
   \<exists>p'. accept_loop p accs = Inr p' \<and> exit_status p' = None \<and> globals p' = globals p \<and>
        perrors (events p') = perrors (events p) @ replicate (length accs) ''Failed to accept connection''"
proof (induction accs arbitrary: p)
  case Nil
  then show ?case by simp
next
  case (Cons a accs)
  let ?p1 = "p\<lparr>events := events p @
             [Syscall ''accept'' [sockfd p] (acc_ret a), Perror ''Failed to accept connection'']\<rparr>"
  from Cons.prems have s: "accept_iteration p a = Inr ?p1" by (simp add: accept_failure)
  have "exit_status ?p1 = None" using Cons.prems(1) by simp
  from Cons.IH[OF this] Cons.prems(2) obtain p' where
    r: "accept_loop ?p1 accs = Inr p'" "exit_status p' = None" "globals p' = globals ?p1"
       "perrors (events p') = perrors (events ?p1) @ replicate (length accs) ''Failed to accept connection''"
    by auto
  have pe: "perrors (xs @ [Syscall n args r, Perror m]) = perrors xs @ [m]" for xs n args r m
    by (induction xs rule: perrors.induct) simp_all
  from s r pe show ?case by (simp add: replicate_app_Cons_same)
qed

lemma main_setup_fatal:
  assumes "socket_ret env < 0 \<or> bind_ret env < 0 \<or> listen_ret env < 0"
  shows "exit_status (main_setup env) = Some EXIT_FAILURE \<and> started (main_setup env) = 0"
  using assms by (auto simp: main_setup_def Let_def)

lemma worker_step_clients:
  "worker_step w e srv = Inr (w', srv', s, evs) \<Longrightarrow> clients srv' = clients srv"
  by (auto simp: worker_step_def split: if_splits sum.splits option.splits)

lemma worker_run_clients:
  "worker_run w srv es = Inr (w', srv', evs) \<Longrightarrow> clients srv' = clients srv"
proof (induction es arbitrary: w srv evs)
  case Nil
  then show ?case by simp
next
  case (Cons e es)
  from Cons.prems obtain w1 srv1 s1 evs1 evs2 where
    s: "worker_step w e srv = Inr (w1, srv1, s1, evs1)" and
    r: "worker_run w1 srv1 es = Inr (w', srv', evs2)"
    by (auto split: sum.splits prod.splits)
  from Cons.IH[OF r] worker_step_clients[OF s] show ?case by simp
qed

lemma main_accept_5:
  "map_sum id globals (main setup_ok [accept_5]) = Inr queued_5"
  by (simp add: main_def main_setup_ok accept_iteration_def accept_5_def enqueue_def queued_5_def)

lemma worker_dispatch_5:
  "worker_run \<lparr>w_pc = W_dequeue, w_connfd = 0\<rparr> queued_5 [sys 0, sys 0] =
     Inr (\<lparr>w_pc = W_recv, w_connfd = 5\<rparr>,
          \<lparr>nodes = Map.empty, queue = \<lparr>head = None, tail = None\<rparr>,
           clients = \<lparr>client_fds = [], count = 0\<rparr>\<rparr>,
          [Printf ''[SERVER]Worker thread processing connection %d\<newline>'' [D 5]])"
  by (simp add: worker_step_def worker_serve_def dequeue_def queued_5_def sys_def Let_def)

lemma closes_append: "closes fd (xs @ ys) = closes fd xs + closes fd ys"
  by (induction xs) (simp_all add: closes_def)

lemma conn_inv_start: "conn_inv fd (conn_start fd)"
  by (simp add: conn_inv_def conn_start_def closes_def close_count_def)

lemma conn_step_inv:
  assumes inv: "conn_inv fd c" and step: "conn_step c t = Inr c'"
  shows "conn_inv fd c'"
proof (cases t)
  case (WorkerTurn e)
  show ?thesis
  proof (cases "w_pc (c_worker c)")
    case W_dequeue
    with WorkerTurn step inv show ?thesis by (simp add: conn_step_def)
  next
    case W_create
    with WorkerTurn step inv show ?thesis
      by (auto simp: conn_step_def worker_serve_def conn_inv_def closes_append closes_def
            close_count_def sender_start_def split: option.splits if_splits)
  next
    case W_recv
    with WorkerTurn step inv show ?thesis
      by (auto simp: conn_step_def worker_serve_def conn_inv_def closes_append closes_def
            close_count_def split: option.splits if_splits)
  next
    case W_close
    with WorkerTurn step inv show ?thesis
      by (auto simp: conn_step_def worker_serve_def conn_inv_def closes_append closes_def
            close_count_def split: option.splits if_splits)
  qed
next
  case (SenderTurn r)
  show ?thesis
  proof (cases "c_sender c")
    case None
    with SenderTurn step inv show ?thesis by (simp add: conn_step_def)
  next
    case (Some s)
    with SenderTurn step inv show ?thesis
      by (cases "s_pc s")
         (auto simp: conn_step_def sender_step_def conn_inv_def closes_append closes_def
            close_count_def Let_def split: if_splits)
  qed
qed

lemma conn_run_inv:
  "conn_inv fd c \<Longrightarrow> conn_run c ts = Inr c' \<Longrightarrow> conn_inv fd c'"
proof (induction ts arbitrary: c)
  case Nil
  then show ?case by simp
next
  case (Cons t ts)
  from Cons.prems(2) obtain c1 where s: "conn_step c t = Inr c1" and r: "conn_run c1 ts = Inr c'"
    by (auto split: sum.splits)
  from Cons.IH[OF conn_step_inv[OF Cons.prems(1) s] r] show ?case .
qed

lemma conn_close_count:
  "conn_run (conn_start fd) ts = Inr c \<Longrightarrow> closes fd (c_trace c) = close_count c"
  using conn_run_inv[OF conn_inv_start] by (simp add: conn_inv_def)

lemma sender_failure_closes:
  "r < 0 \<Longrightarrow>
   sender_thread fd [r, r'] =
     (\<lparr>s_connfd = fd, s_counter = 1, s_pc = S_done\<rparr>,
      [Send fd (test_message 0) r, Perror ''Failed to send data'', Close fd])"
  by (simp add: sender_thread_def sender_start_def sender_step_def Let_def)

section \<open>The claims\<close>

text \<open>
  Claim C4. From an initialised client manager, every history of \<^verbatim>\<open>add_client\<close>,
  \<^verbatim>\<open>remove_client\<close> and \<^verbatim>\<open>broadcast_to_clients\<close> calls runs without a fault
  and ends in a state with \<open>0 \<le> count \<le> MAX_CLIENTS = 100\<close> and the array at its full
  length. In such a state a broadcast leaves the manager as it is, whatever its sends do, so only the two other
  operations change membership, and an \<^verbatim>\<open>add_client\<close> at \<open>count = MAX_CLIENTS\<close>
  only prints the warning and returns the manager unchanged.
\<close>

theorem registry_capacity:
  assumes "init_client_manager (Some cells) = Inr cm0"
  shows "\<exists>cm. registry_ops cm0 ops = Inr cm \<and>
           0 \<le> count cm \<and> count cm \<le> MAX_CLIENTS \<and> MAX_CLIENTS = 100 \<and>
           int (length (client_fds cm)) = MAX_CLIENTS \<and>
           (count cm = MAX_CLIENTS \<longrightarrow>
              (\<forall>fd. add_client cm fd =
                 Inr (cm, [Printf ''Warning: Maximum clients reached, connection rejected\<newline>'' []]))) \<and>
           (\<forall>payload rs. \<exists>evs killed. broadcast_to_clients cm payload rs = Inr (cm, evs, killed))"
proof -
  from cm_ok_init[OF assms] have "cm_ok cm0" by simp
  from registry_ops_ok[OF this] obtain cm where run: "registry_ops cm0 ops = Inr cm" and ok: "cm_ok cm"
    by blast
  from ok have bounds: "0 \<le> count cm" "count cm \<le> MAX_CLIENTS" "int (length (client_fds cm)) = MAX_CLIENTS"
    by (simp_all add: cm_ok_def)
  have full: "count cm = MAX_CLIENTS \<longrightarrow>
      (\<forall>fd. add_client cm fd =
         Inr (cm, [Printf ''Warning: Maximum clients reached, connection rejected\<newline>'' []]))"
    by (simp add: add_client_def)
  from run bounds full broadcast_unchanged[OF ok] show ?thesis
    by (simp add: MAX_CLIENTS_def)
qed

theorem registry_capacity_witness:
  "\<exists>cm0 cm. init_client_manager (Some (\<lambda>i. 0)) = Inr cm0 \<and>
     registry_ops cm0 (map Add (replicate 100 7)) = Inr cm \<and>
     count cm = MAX_CLIENTS \<and>
     add_client cm 8 =
       Inr (cm, [Printf ''Warning: Maximum clients reached, connection rejected\<newline>'' []])"
proof -
  obtain cm0 where i: "init_client_manager (Some (\<lambda>i. 0)) = Inr cm0"
    by (simp add: init_client_manager_def)
  from cm_ok_init[OF i] have ok: "cm_ok cm0" and z: "count cm0 = 0" by simp_all
  from z have "count cm0 + int (length (replicate 100 (7::int))) \<le> MAX_CLIENTS"
    by (simp add: MAX_CLIENTS_def)
  from adds_fill[OF ok this] z obtain cm1 where
    f: "registry_ops cm0 (map Add (replicate 100 7)) = Inr cm1" "count cm1 = MAX_CLIENTS"
    by (auto simp: MAX_CLIENTS_def)
  from registry_capacity[OF i, of "map Add (replicate 100 7)"] f
  have "add_client cm1 8 =
       Inr (cm1, [Printf ''Warning: Maximum clients reached, connection rejected\<newline>'' []])"
    by auto
  with i f show ?thesis by blast
qed

text \<open>
  Claim C9. On a well-formed client manager, \<^verbatim>\<open>remove_client\<close> with a descriptor that
  is not registered returns the manager unchanged and prints nothing; with a registered
  descriptor it removes one occurrence and decrements \<^verbatim>\<open>count\<close>; and for a descriptor
  registered at most once, after one call the descriptor is gone and a second call changes
  nothing, so that two calls have the effect of one.
\<close>

theorem remove_client_idempotent:
  assumes ok: "cm_ok cm"
  shows "(fd \<notin> registered cm \<longrightarrow> remove_client cm fd = Inr (cm, [])) \<and>
         (fd \<in> registered cm \<longrightarrow>
            (\<exists>cm1 evs. remove_client cm fd = Inr (cm1, evs) \<and> count cm1 = count cm - 1 \<and>
                       mset (active cm1) = mset (active cm) - {#fd#})) \<and>
         (count_list (active cm) fd \<le> 1 \<longrightarrow>
            (\<exists>cm1 evs. remove_client cm fd = Inr (cm1, evs) \<and> fd \<notin> registered cm1 \<and>
                       remove_client cm1 fd = Inr (cm1, [])))"
proof (intro conjI impI)
  assume "fd \<notin> registered cm"
  with ok show "remove_client cm fd = Inr (cm, [])" by (rule remove_client_absent)
next
  assume "fd \<in> registered cm"
  from remove_client_mset[OF ok this]
  show "\<exists>cm1 evs. remove_client cm fd = Inr (cm1, evs) \<and> count cm1 = count cm - 1 \<and>
                  mset (active cm1) = mset (active cm) - {#fd#}" by blast
next
  assume once: "count_list (active cm) fd \<le> 1"
  show "\<exists>cm1 evs. remove_client cm fd = Inr (cm1, evs) \<and> fd \<notin> registered cm1 \<and>
                  remove_client cm1 fd = Inr (cm1, [])"
  proof (cases "fd \<in> registered cm")
    case False
    with remove_client_absent[OF ok] show ?thesis by auto
  next
    case True
    from remove_client_mset[OF ok True] obtain cm1 evs where
      r: "remove_client cm fd = Inr (cm1, evs)" and ok1: "cm_ok cm1" and
      m: "mset (active cm1) = mset (active cm) - {#fd#}" by blast
    have "Multiset.count (mset (active cm1)) fd = Multiset.count (mset (active cm)) fd - 1"
      using m by simp
    with once have "Multiset.count (mset (active cm1)) fd = 0" by (simp add: count_mset)
    then have gone: "fd \<notin> registered cm1"
      by (simp add: registered_def count_eq_zero_iff)
    with ok1 have "remove_client cm1 fd = Inr (cm1, [])" by (rule remove_client_absent)
    with r gone show ?thesis by blast
  qed
qed

theorem remove_client_idempotent_witness:
  "cm_ok two_clients \<and> 9 \<notin> registered two_clients \<and> remove_client two_clients 9 = Inr (two_clients, []) \<and>
   7 \<in> registered two_clients \<and> count_list (active two_clients) 7 \<le> 1 \<and>
   (\<exists>cm1 evs. remove_client two_clients 7 = Inr (cm1, evs) \<and> count cm1 = 1 \<and>
              remove_client cm1 7 = Inr (cm1, []))"
proof -
  have a: "9 \<notin> registered two_clients" "7 \<in> registered two_clients"
    "count_list (active two_clients) 7 \<le> 1"
    by (simp_all add: registered_def two_clients_active)
  have c: "count two_clients = 2" by (simp add: two_clients_def)
  from remove_client_idempotent[OF two_clients_ok, of 9] a
  have r9: "remove_client two_clients 9 = Inr (two_clients, [])" by blast
  from remove_client_idempotent[OF two_clients_ok, of 7] a obtain cm1 evs cm2 evs2 where
    "remove_client two_clients 7 = Inr (cm1, evs)" "count cm1 = count two_clients - 1"
    "remove_client two_clients 7 = Inr (cm2, evs2)" "remove_client cm2 7 = Inr (cm2, [])"
    by blast
  with c have "\<exists>cm1 evs. remove_client two_clients 7 = Inr (cm1, evs) \<and> count cm1 = 1 \<and>
              remove_client cm1 7 = Inr (cm1, [])" by auto
  with two_clients_ok a r9 show ?thesis by blast
qed


text \<open>
  Claim C10. \<^verbatim>\<open>add_client\<close> does not look for the descriptor in the array. On a
  well-formed manager with room for two more entries, adding the same descriptor twice
  stores it in two further cells and raises \<^verbatim>\<open>count\<close> by two; a broadcast whose sends
  return then calls
  \<^verbatim>\<open>send\<close> on that descriptor once for each stored occurrence; and one
  \<^verbatim>\<open>remove_client\<close> removes a single occurrence, so that the descriptor stays
  registered.
\<close>

theorem registry_is_multiset:
  assumes ok: "cm_ok cm" and room: "count cm + 2 \<le> MAX_CLIENTS"
  shows "\<exists>cm1 e1 cm2 e2 evs cm3 e3.
           add_client cm fd = Inr (cm1, e1) \<and> add_client cm1 fd = Inr (cm2, e2) \<and>
           count cm2 = count cm + 2 \<and> active cm2 = active cm @ [fd, fd] \<and>
           broadcast_to_clients cm2 payload (\<lambda>k. Returns (rs k)) = Inr (cm2, evs, False) \<and>
           count_list (sent_to evs) (fd, payload) = count_list (active cm) fd + 2 \<and>
           remove_client cm2 fd = Inr (cm3, e3) \<and>
           count cm3 = count cm + 1 \<and>
           count_list (active cm3) fd = count_list (active cm) fd + 1"
proof -
  from room have r1: "count cm < MAX_CLIENTS" by simp
  from add_client_active[OF ok r1, of fd] obtain cm1 e1 where
    a1: "add_client cm fd = Inr (cm1, e1)" "cm_ok cm1" "count cm1 = count cm + 1"
        "active cm1 = active cm @ [fd]" by blast
  from room a1(3) have r2: "count cm1 < MAX_CLIENTS" by simp
  from add_client_active[OF a1(2) r2, of fd] obtain cm2 e2 where
    a2: "add_client cm1 fd = Inr (cm2, e2)" "cm_ok cm2" "count cm2 = count cm1 + 1"
        "active cm2 = active cm1 @ [fd]" by blast
  from a1 a2 have act: "active cm2 = active cm @ [fd, fd]" and cnt: "count cm2 = count cm + 2"
    by simp_all
  from broadcast_sent_to_all[OF a2(2), of payload rs] obtain evs where
    b: "broadcast_to_clients cm2 payload (\<lambda>k. Returns (rs k)) = Inr (cm2, evs, False)"
       "sent_to evs = map (\<lambda>x. (x, payload)) (active cm2)" by blast
  have sent: "count_list (sent_to evs) (fd, payload) = count_list (active cm) fd + 2"
    using b(2) act by (simp add: count_list_pair)
  have mem: "fd \<in> registered cm2" using act by (simp add: registered_def)
  from remove_client_mset[OF a2(2) mem] obtain cm3 e3 where
    r: "remove_client cm2 fd = Inr (cm3, e3)" "count cm3 = count cm2 - 1"
       "mset (active cm3) = mset (active cm2) - {#fd#}" by blast
  have "Multiset.count (mset (active cm3)) fd = Multiset.count (mset (active cm)) fd + 1"
    using r(3) act by simp
  then have left: "count_list (active cm3) fd = count_list (active cm) fd + 1"
    by (simp add: count_mset)
  from a1(1) a2(1) cnt act b(1) sent r(1,2) left show ?thesis by auto
qed


theorem registry_is_multiset_witness:
  "cm_ok two_clients \<and> count two_clients + 2 \<le> MAX_CLIENTS \<and>
   (\<exists>cm1 e1 cm2 e2 evs cm3 e3.
      add_client two_clients 7 = Inr (cm1, e1) \<and> add_client cm1 7 = Inr (cm2, e2) \<and>
      count cm2 = 4 \<and> active cm2 = [7, 8, 7, 7] \<and>
      broadcast_to_clients cm2 ''m'' (\<lambda>k. Returns 1) = Inr (cm2, evs, False) \<and>
      count_list (sent_to evs) (7, ''m'') = 3 \<and>
      remove_client cm2 7 = Inr (cm3, e3) \<and> count cm3 = 3 \<and> count_list (active cm3) 7 = 2)"
proof -
  have room: "count two_clients + 2 \<le> MAX_CLIENTS"
    by (simp add: two_clients_def MAX_CLIENTS_def)
  have c: "count two_clients = 2" by (simp add: two_clients_def)
  from registry_is_multiset[OF two_clients_ok room, of 7 "''m''" "\<lambda>k. 1"] room two_clients_ok c
  show ?thesis by (simp add: two_clients_active numeral_3_eq_3 numeral_2_eq_2)
qed

text \<open>
  Claim C3. Take any history of \<^verbatim>\<open>enqueue\<close> and \<^verbatim>\<open>dequeue\<close> calls on an
  initialised queue in which \<^verbatim>\<open>malloc\<close> never returns a block that is in use. The
  history runs without a fault; the descriptors returned by \<^verbatim>\<open>dequeue\<close>, in call
  order, are an initial segment of the descriptors linked in by \<^verbatim>\<open>enqueue\<close>, in call
  order; and the queue holds the rest, in that order. In the state reached, a further
  \<^verbatim>\<open>enqueue\<close> appends its descriptor at the tail, and \<^verbatim>\<open>dequeue\<close> waits when
  the queue is empty and otherwise removes and returns the head.
\<close>

theorem queue_fifo:
  assumes fresh: "mallocs_fresh h0 init_queue ops"
  shows "\<exists>h q es ds. queue_ops h0 init_queue ops = Inr (h, q, es, ds) \<and>
           ds = take (length ds) es \<and> queue_repr h q (drop (length ds) es) \<and>
           (\<forall>fd a. h a = None \<longrightarrow>
              (\<exists>h' q'. enqueue h q fd (Some a) = Inr (h', q', []) \<and>
                       queue_repr h' q' (drop (length ds) es @ [fd]))) \<and>
           (drop (length ds) es = [] \<longrightarrow> dequeue h q = Inr None) \<and>
           (\<forall>x xs. drop (length ds) es = x # xs \<longrightarrow>
              (\<exists>h' q'. dequeue h q = Inr (Some (x, h', q')) \<and> queue_repr h' q' xs))"
proof -
  from queue_ops_fifo[OF queue_repr_init fresh] obtain h q es ds where
    run: "queue_ops h0 init_queue ops = Inr (h, q, es, ds)" and
    pre: "ds = take (length ds) es" and
    rep: "queue_repr h q (drop (length ds) es)" by auto
  have enq: "\<forall>fd a. h a = None \<longrightarrow>
              (\<exists>h' q'. enqueue h q fd (Some a) = Inr (h', q', []) \<and>
                       queue_repr h' q' (drop (length ds) es @ [fd]))"
    using enqueue_repr[OF rep] by blast
  have emp: "drop (length ds) es = [] \<longrightarrow> dequeue h q = Inr None"
    using rep dequeue_repr_empty by auto
  have deq: "\<forall>x xs. drop (length ds) es = x # xs \<longrightarrow>
              (\<exists>h' q'. dequeue h q = Inr (Some (x, h', q')) \<and> queue_repr h' q' xs)"
  proof (intro allI impI)
    fix x xs assume "drop (length ds) es = x # xs"
    with rep have "queue_repr h q (x # xs)" by simp
    from dequeue_repr[OF this] show "\<exists>h' q'. dequeue h q = Inr (Some (x, h', q')) \<and> queue_repr h' q' xs"
      by blast
  qed
  from run pre rep enq emp deq show ?thesis by blast
qed

theorem queue_fifo_witness:
  "mallocs_fresh Map.empty init_queue
     [Enq 5 (Some 1), Enq 6 (Some 2), Deq, Enq 7 None, Enq 8 (Some 1), Deq, Deq, Deq] \<and>
   (\<exists>h q. queue_ops Map.empty init_queue
       [Enq 5 (Some 1), Enq 6 (Some 2), Deq, Enq 7 None, Enq 8 (Some 1), Deq, Deq, Deq] =
       Inr (h, q, [5, 6, 8], [5, 6, 8]) \<and> queue_repr h q [] \<and> dequeue h q = Inr None)"
proof -
  from queue_fifo[OF example_history_fresh] example_history_run example_history_fresh
  show ?thesis by auto
qed

text \<open>
  Claim C8. \<^verbatim>\<open>enqueue\<close> has no waiting outcome. When \<^verbatim>\<open>malloc\<close> fails it logs
  the diagnostic with \<^verbatim>\<open>perror\<close> and returns with the heap and the queue exactly as
  they were, the descriptor dropped. When \<^verbatim>\<open>malloc\<close> returns a fresh block and the
  queue is well formed, it returns without a fault and without output, with the descriptor
  appended at the tail.
\<close>

theorem enqueue_total:
  "enqueue h q fd None = Inr (h, q, [Perror ''Failed to allocate memory for connection node'']) \<and>
   (queue_repr h q xs \<and> h a = None \<longrightarrow>
      (\<exists>h' q'. enqueue h q fd (Some a) = Inr (h', q', []) \<and> queue_repr h' q' (xs @ [fd])))"
  using enqueue_repr[of h q xs a fd] by (simp add: enqueue_def)

theorem enqueue_total_witness:
  "queue_repr Map.empty init_queue [] \<and> Map.empty (1::nat) = (None :: conn_node option) \<and>
   enqueue Map.empty init_queue 5 None =
     Inr (Map.empty, init_queue, [Perror ''Failed to allocate memory for connection node'']) \<and>
   (\<exists>h' q'. enqueue Map.empty init_queue 5 (Some 1) = Inr (h', q', []) \<and> queue_repr h' q' [5])"
  using enqueue_total[of Map.empty init_queue 5 "[]" 1] queue_repr_init[of Map.empty]
  by simp

text \<open>
  Claim C7, for the calls whose result \<^verbatim>\<open>main\<close> tests. If \<^verbatim>\<open>socket\<close>,
  \<^verbatim>\<open>bind\<close> or \<^verbatim>\<open>listen\<close> fails, the process exits with
  \<^verbatim>\<open>EXIT_FAILURE\<close>, which is not zero, before any worker thread is created. A failing
  \<^verbatim>\<open>accept\<close> only adds its \<^verbatim>\<open>perror\<close> line and leaves the process running
  with its state otherwise unchanged; after any number of failing accepts the process is
  still running; and no iteration of the accept loop, failing or not, ends the process.
\<close>

theorem setup_failure_fatal:
  "(socket_ret env < 0 \<or> bind_ret env < 0 \<or> listen_ret env < 0 \<longrightarrow>
      main env accs = Inr (main_setup env) \<and>
      exit_status (main_setup env) = Some EXIT_FAILURE \<and> EXIT_FAILURE \<noteq> 0 \<and>
      started (main_setup env) = 0) \<and>
   (exit_status p = None \<and> acc_ret a < 0 \<longrightarrow>
      accept_iteration p a =
        Inr (p\<lparr>events := events p @
                [Syscall ''accept'' [sockfd p] (acc_ret a), Perror ''Failed to accept connection'']\<rparr>)) \<and>
   (exit_status (main_setup env) = None \<and> (\<forall>a \<in> set accs. acc_ret a < 0) \<longrightarrow>
      (\<exists>p'. main env accs = Inr p' \<and> exit_status p' = None \<and>
            globals p' = globals (main_setup env) \<and>
            perrors (events p') =
              perrors (events (main_setup env)) @
              replicate (length accs) ''Failed to accept connection'')) \<and>
   (exit_status (main_setup env) = None \<and> main env accs = Inr p'' \<longrightarrow> exit_status p'' = None)"
proof -
  have fatal: "socket_ret env < 0 \<or> bind_ret env < 0 \<or> listen_ret env < 0 \<longrightarrow>
      main env accs = Inr (main_setup env) \<and>
      exit_status (main_setup env) = Some EXIT_FAILURE \<and> EXIT_FAILURE \<noteq> 0 \<and>
      started (main_setup env) = 0"
  proof
    assume f: "socket_ret env < 0 \<or> bind_ret env < 0 \<or> listen_ret env < 0"
    from main_setup_fatal[OF f]
    have e: "exit_status (main_setup env) = Some EXIT_FAILURE" and w: "started (main_setup env) = 0"
      by simp_all
    from e have "main env accs = Inr (main_setup env)"
      by (simp add: main_def accept_loop_exited)
    with e w show "main env accs = Inr (main_setup env) \<and>
        exit_status (main_setup env) = Some EXIT_FAILURE \<and> EXIT_FAILURE \<noteq> 0 \<and>
        started (main_setup env) = 0"
      by (simp add: EXIT_FAILURE_def)
  qed
  have logged: "exit_status p = None \<and> acc_ret a < 0 \<longrightarrow>
      accept_iteration p a =
        Inr (p\<lparr>events := events p @
                [Syscall ''accept'' [sockfd p] (acc_ret a), Perror ''Failed to accept connection'']\<rparr>)"
    by (simp add: accept_failure)
  have continues: "exit_status (main_setup env) = None \<and> (\<forall>a \<in> set accs. acc_ret a < 0) \<longrightarrow>
      (\<exists>p'. main env accs = Inr p' \<and> exit_status p' = None \<and>
            globals p' = globals (main_setup env) \<and>
            perrors (events p') =
              perrors (events (main_setup env)) @
              replicate (length accs) ''Failed to accept connection'')"
    using accept_loop_failures[of "main_setup env" accs] by (simp add: main_def)
  have never: "exit_status (main_setup env) = None \<and> main env accs = Inr p'' \<longrightarrow> exit_status p'' = None"
    using accept_loop_running[of "main_setup env" accs p''] by (simp add: main_def)
  from fatal logged continues never show ?thesis by (intro conjI)
qed

theorem setup_failure_fatal_witness:
  "bind_ret bind_fails < 0 \<and>
   main bind_fails [accept_5] = Inr (main_setup bind_fails) \<and>
   exit_status (main_setup bind_fails) = Some 1 \<and> started (main_setup bind_fails) = 0 \<and>
   exit_status (main_setup setup_ok) = None \<and> acc_ret accept_fails < 0 \<and>
   accept_iteration (main_setup setup_ok) accept_fails =
     Inr ((main_setup setup_ok)\<lparr>events := events (main_setup setup_ok) @
            [Syscall ''accept'' [3] (- 1), Perror ''Failed to accept connection'']\<rparr>) \<and>
   (\<exists>p'. main setup_ok [accept_fails, accept_fails] = Inr p' \<and> exit_status p' = None) \<and>
   (\<exists>p''. main setup_ok [accept_5, accept_fails] = Inr p'' \<and> exit_status p'' = None)"
proof -
  have b: "bind_ret bind_fails < 0" by (simp add: bind_fails_def)
  have r: "exit_status (main_setup setup_ok) = None" "sockfd (main_setup setup_ok) = 3"
    by (simp_all add: main_setup_ok)
  have a: "acc_ret accept_fails < 0" "acc_ret accept_fails = - 1" by (simp_all add: accept_fails_def)
  have all: "\<forall>a \<in> set [accept_fails, accept_fails]. acc_ret a < 0" using a by simp
  from setup_failure_fatal[of bind_fails "[accept_5]" "main_setup setup_ok" accept_fails] b r a
  have 1: "main bind_fails [accept_5] = Inr (main_setup bind_fails) \<and>
   exit_status (main_setup bind_fails) = Some 1 \<and> started (main_setup bind_fails) = 0 \<and>
   accept_iteration (main_setup setup_ok) accept_fails =
     Inr ((main_setup setup_ok)\<lparr>events := events (main_setup setup_ok) @
            [Syscall ''accept'' [3] (- 1), Perror ''Failed to accept connection'']\<rparr>)"
    by (simp add: EXIT_FAILURE_def)
  from setup_failure_fatal[of setup_ok "[accept_fails, accept_fails]" "main_setup setup_ok" accept_fails] r all
  have 2: "\<exists>p'. main setup_ok [accept_fails, accept_fails] = Inr p' \<and> exit_status p' = None"
    by blast
  obtain p'' where m: "main setup_ok [accept_5, accept_fails] = Inr p''"
    by (simp add: main_def main_setup_ok accept_iteration_def accept_5_def accept_fails_def
          enqueue_def)
  from setup_failure_fatal[of setup_ok "[accept_5, accept_fails]" "main_setup setup_ok" accept_fails p''] r m
  have 3: "\<exists>p''. main setup_ok [accept_5, accept_fails] = Inr p'' \<and> exit_status p'' = None"
    by blast
  from 1 2 3 b r a show ?thesis by simp
qed

text \<open>
  Claim C7 as stated also counts a failure of the socket-option call among the fatal ones.
  \<^verbatim>\<open>main\<close> does not test what \<^verbatim>\<open>setsockopt\<close> returns: in the start-up
  \<open>setup_ok\<close> the call fails, and the process goes on to create its four workers and
  enters the accept loop without exiting.
\<close>

theorem setsockopt_failure_not_fatal:
  "setsockopt_ret setup_ok < 0 \<and> main setup_ok [] = Inr (main_setup setup_ok) \<and>
   exit_status (main_setup setup_ok) = None \<and> started (main_setup setup_ok) = 4"
  by (simp add: main_def main_setup_ok) (simp add: setup_ok_def)

text \<open>
  Claim C2, as the worker is written. No step of \<^verbatim>\<open>worker_thread\<close> calls
  \<^verbatim>\<open>add_client\<close> or \<^verbatim>\<open>remove_client\<close>: whatever steps a worker takes, the
  client manager afterwards is the one before, so the connection that the worker is serving
  is registered afterwards exactly if its descriptor was registered before. Step by step:
  the \<^verbatim>\<open>dequeue\<close> step changes only the queue; the step that creates the sender
  thread changes no global, whether \<^verbatim>\<open>pthread_create\<close> succeeds or fails (and is a
  fault when \<^verbatim>\<open>malloc\<close> returned \<^verbatim>\<open>NULL\<close>); a \<^verbatim>\<open>recv\<close> that returns
  data changes no global; and when \<^verbatim>\<open>recv\<close> returns zero (peer close) or a negative
  value (read error) the worker logs the outcome, closes the descriptor and is back at
  \<^verbatim>\<open>dequeue\<close>, with the globals untouched.
\<close>

theorem worker_never_registers:
  "(worker_run w srv es = Inr (w', srv', evs) \<longrightarrow>
      clients srv' = clients srv \<and>
      (\<forall>x \<in> serving w'. (x \<in> registered (clients srv')) = (x \<in> registered (clients srv)))) \<and>
   (w_pc w = W_dequeue \<and> dequeue (nodes srv) (queue srv) = Inr (Some (fd, h, q)) \<longrightarrow>
      worker_step w e srv =
        Inr (\<lparr>w_pc = W_create, w_connfd = fd\<rparr>, srv\<lparr>nodes := h, queue := q\<rparr>, None,
             [Printf ''[SERVER]Worker thread processing connection %d\<newline>'' [D fd]])) \<and>
   (w_pc w = W_create \<and> block e \<noteq> None \<longrightarrow>
      worker_step w e srv =
        Inr (w\<lparr>w_pc := W_recv\<rparr>, srv,
             if ret e = 0 then Some (sender_start (w_connfd w)) else None,
             if ret e = 0 then [] else [Perror ''Failed to create sender thread''])) \<and>
   (w_pc w = W_create \<and> block e = None \<longrightarrow> worker_step w e srv = Inl NullDeref) \<and>
   (w_pc w = W_recv \<and> 0 < ret e \<and> ret e < BUFFER_SIZE \<longrightarrow>
      worker_step w e srv =
        Inr (w, srv, None,
             [Recv (w_connfd w) (ret e),
              Printf ''[SERVER] Received %zd bytes from connection %d: %s\<newline>''
                [D (ret e), D (w_connfd w), S (c_string (take (nat (ret e)) (bytes e)))]])) \<and>
   (w_pc w = W_recv \<and> ret e \<le> 0 \<longrightarrow>
      worker_run w srv [e, e'] =
        Inr (w\<lparr>w_pc := W_dequeue\<rparr>, srv,
             [Recv (w_connfd w) (ret e),
              if ret e < 0 then Perror ''Failed to receive data from connection''
              else Printf ''[SERVER] Connection %d closed by client\<newline>'' [D (w_connfd w)],
              Close (w_connfd w)]))"
proof -
  have a: "worker_run w srv es = Inr (w', srv', evs) \<longrightarrow>
      clients srv' = clients srv \<and>
      (\<forall>x \<in> serving w'. (x \<in> registered (clients srv')) = (x \<in> registered (clients srv)))"
    using worker_run_clients[of w srv es w' srv' evs] by simp
  have b: "w_pc w = W_dequeue \<and> dequeue (nodes srv) (queue srv) = Inr (Some (fd, h, q)) \<longrightarrow>
      worker_step w e srv =
        Inr (\<lparr>w_pc = W_create, w_connfd = fd\<rparr>, srv\<lparr>nodes := h, queue := q\<rparr>, None,
             [Printf ''[SERVER]Worker thread processing connection %d\<newline>'' [D fd]])"
    by (simp add: worker_step_def)
  have c: "w_pc w = W_create \<and> block e \<noteq> None \<longrightarrow>
      worker_step w e srv =
        Inr (w\<lparr>w_pc := W_recv\<rparr>, srv,
             if ret e = 0 then Some (sender_start (w_connfd w)) else None,
             if ret e = 0 then [] else [Perror ''Failed to create sender thread''])"
    by (auto simp: worker_step_def worker_serve_def)
  have c': "w_pc w = W_create \<and> block e = None \<longrightarrow> worker_step w e srv = Inl NullDeref"
    by (simp add: worker_step_def worker_serve_def)
  have r: "w_pc w = W_recv \<and> 0 < ret e \<and> ret e < BUFFER_SIZE \<longrightarrow>
      worker_step w e srv =
        Inr (w, srv, None,
             [Recv (w_connfd w) (ret e),
              Printf ''[SERVER] Received %zd bytes from connection %d: %s\<newline>''
                [D (ret e), D (w_connfd w), S (c_string (take (nat (ret e)) (bytes e)))]])"
    by (simp add: worker_step_def worker_serve_def)
  have d: "w_pc w = W_recv \<and> ret e \<le> 0 \<longrightarrow>
      worker_run w srv [e, e'] =
        Inr (w\<lparr>w_pc := W_dequeue\<rparr>, srv,
             [Recv (w_connfd w) (ret e),
              if ret e < 0 then Perror ''Failed to receive data from connection''
              else Printf ''[SERVER] Connection %d closed by client\<newline>'' [D (w_connfd w)],
              Close (w_connfd w)])"
    by (simp add: worker_step_def worker_serve_def)
  from a b c c' r d show ?thesis by (intro conjI)
qed

theorem worker_never_registers_witness:
  "worker_run \<lparr>w_pc = W_dequeue, w_connfd = 0\<rparr> queued_5 [sys 0, sys 0] =
     Inr (\<lparr>w_pc = W_recv, w_connfd = 5\<rparr>,
          \<lparr>nodes = Map.empty, queue = \<lparr>head = None, tail = None\<rparr>,
           clients = \<lparr>client_fds = [], count = 0\<rparr>\<rparr>,
          [Printf ''[SERVER]Worker thread processing connection %d\<newline>'' [D 5]]) \<and>
   clients queued_5 = \<lparr>client_fds = [], count = 0\<rparr> \<and>
   5 \<in> serving \<lparr>w_pc = W_recv, w_connfd = 5\<rparr> \<and>
   ((5 \<in> registered \<lparr>client_fds = [], count = 0\<rparr>) = (5 \<in> registered (clients queued_5))) \<and>
   dequeue (nodes queued_5) (queue queued_5) = Inr (Some (5, Map.empty, \<lparr>head = None, tail = None\<rparr>)) \<and>
   worker_step \<lparr>w_pc = W_dequeue, w_connfd = 0\<rparr> (sys 0) queued_5 =
     Inr (\<lparr>w_pc = W_create, w_connfd = 5\<rparr>,
          queued_5\<lparr>nodes := Map.empty, queue := \<lparr>head = None, tail = None\<rparr>\<rparr>, None,
          [Printf ''[SERVER]Worker thread processing connection %d\<newline>'' [D 5]]) \<and>
   worker_step \<lparr>w_pc = W_create, w_connfd = 5\<rparr> (sys 0) queued_5 =
     Inr (\<lparr>w_pc = W_recv, w_connfd = 5\<rparr>, queued_5, Some (sender_start 5), []) \<and>
   worker_step \<lparr>w_pc = W_create, w_connfd = 5\<rparr> (sys 11) queued_5 =
     Inr (\<lparr>w_pc = W_recv, w_connfd = 5\<rparr>, queued_5, None, [Perror ''Failed to create sender thread'']) \<and>
   worker_step \<lparr>w_pc = W_create, w_connfd = 5\<rparr> \<lparr>ret = 0, bytes = [], block = None\<rparr> queued_5 =
     Inl NullDeref \<and>
   worker_step \<lparr>w_pc = W_recv, w_connfd = 5\<rparr> \<lparr>ret = 2, bytes = ''hi'', block = None\<rparr> queued_5 =
     Inr (\<lparr>w_pc = W_recv, w_connfd = 5\<rparr>, queued_5, None,
          [Recv 5 2,
           Printf ''[SERVER] Received %zd bytes from connection %d: %s\<newline>'' [D 2, D 5, S ''hi'']]) \<and>
   worker_run \<lparr>w_pc = W_recv, w_connfd = 5\<rparr> queued_5 [sys 0, sys 0] =
     Inr (\<lparr>w_pc = W_dequeue, w_connfd = 5\<rparr>, queued_5,
          [Recv 5 0, Printf ''[SERVER] Connection %d closed by client\<newline>'' [D 5], Close 5])"
proof -
  let ?w0 = "\<lparr>w_pc = W_dequeue, w_connfd = 0\<rparr>"
  let ?wc = "\<lparr>w_pc = W_create, w_connfd = 5\<rparr>"
  let ?wr = "\<lparr>w_pc = W_recv, w_connfd = 5\<rparr>"
  let ?srv1 = "\<lparr>nodes = Map.empty, queue = \<lparr>head = None, tail = None\<rparr>,
                clients = \<lparr>client_fds = [], count = 0\<rparr>\<rparr>"
  let ?null = "\<lparr>ret = 0, bytes = [], block = None\<rparr>"
  let ?hi = "\<lparr>ret = 2, bytes = ''hi'', block = None\<rparr>"
  have dq: "dequeue (nodes queued_5) (queue queued_5) =
              Inr (Some (5, Map.empty, \<lparr>head = None, tail = None\<rparr>))"
    by (simp add: dequeue_def queued_5_def Let_def)
  have cl: "clients queued_5 = \<lparr>client_fds = [], count = 0\<rparr>" by (simp add: queued_5_def)
  have sv: "5 \<in> serving ?wr" by (simp add: serving_def)
  have s: "ret (sys 0) = 0" "block (sys 0) \<noteq> None" "ret (sys 11) = 11" "block (sys 11) \<noteq> None"
    by (simp_all add: sys_def)
  have hi: "0 < ret ?hi" "ret ?hi < BUFFER_SIZE" by (simp_all add: BUFFER_SIZE_def)
  have pcs: "w_pc ?w0 = W_dequeue" "w_pc ?wc = W_create" "w_pc ?wr = W_recv" by simp_all
  have nb: "block ?null = None" by simp
  let ?ev = "[Printf ''[SERVER]Worker thread processing connection %d\<newline>'' [D 5]]"
  let ?q0 = "\<lparr>head = None, tail = None\<rparr>"
  note t1 = worker_never_registers[of ?w0 queued_5 "[sys 0, sys 0]" ?wr ?srv1 ?ev 5 Map.empty ?q0 "sys 0" "sys 0"]
  from t1[THEN conjunct1] worker_dispatch_5
  have "clients ?srv1 = clients queued_5 \<and>
      (\<forall>x \<in> serving ?wr. (x \<in> registered (clients ?srv1)) = (x \<in> registered (clients queued_5)))"
    by (rule mp)
  with sv have a: "(5 \<in> registered \<lparr>client_fds = [], count = 0\<rparr>) = (5 \<in> registered (clients queued_5))"
    by simp
  from t1[THEN conjunct2, THEN conjunct1] pcs(1) dq
  have b: "worker_step ?w0 (sys 0) queued_5 =
     Inr (?wc, queued_5\<lparr>nodes := Map.empty, queue := \<lparr>head = None, tail = None\<rparr>\<rparr>, None,
          [Printf ''[SERVER]Worker thread processing connection %d\<newline>'' [D 5]])"
    by blast
  note t2 = worker_never_registers[of ?wc queued_5 "[]" ?wc queued_5 "[]" 5 Map.empty ?q0 "sys 0" "sys 0"]
  from t2[THEN conjunct2, THEN conjunct2, THEN conjunct1] pcs(2) s(2)
  have "worker_step ?wc (sys 0) queued_5 =
        Inr (?wc\<lparr>w_pc := W_recv\<rparr>, queued_5,
             if ret (sys 0) = 0 then Some (sender_start (w_connfd ?wc)) else None,
             if ret (sys 0) = 0 then [] else [Perror ''Failed to create sender thread''])"
    by blast
  with s(1) have c0: "worker_step ?wc (sys 0) queued_5 = Inr (?wr, queued_5, Some (sender_start 5), [])"
    by simp
  note t3 = worker_never_registers[of ?wc queued_5 "[]" ?wc queued_5 "[]" 5 Map.empty ?q0 "sys 11" "sys 0"]
  from t3[THEN conjunct2, THEN conjunct2, THEN conjunct1] pcs(2) s(4)
  have "worker_step ?wc (sys 11) queued_5 =
        Inr (?wc\<lparr>w_pc := W_recv\<rparr>, queued_5,
             if ret (sys 11) = 0 then Some (sender_start (w_connfd ?wc)) else None,
             if ret (sys 11) = 0 then [] else [Perror ''Failed to create sender thread''])"
    by blast
  with s(3) have c1: "worker_step ?wc (sys 11) queued_5 =
     Inr (?wr, queued_5, None, [Perror ''Failed to create sender thread''])"
    by simp
  note t4 = worker_never_registers[of ?wc queued_5 "[]" ?wc queued_5 "[]" 5 Map.empty ?q0 ?null "sys 0"]
  from t4[THEN conjunct2, THEN conjunct2, THEN conjunct2, THEN conjunct1] pcs(2) nb
  have c2: "worker_step ?wc ?null queued_5 = Inl NullDeref" by blast
  note t5 = worker_never_registers[of ?wr queued_5 "[]" ?wr queued_5 "[]" 5 Map.empty ?q0 ?hi "sys 0"]
  from t5[THEN conjunct2, THEN conjunct2, THEN conjunct2, THEN conjunct2, THEN conjunct1] pcs(3) hi
  have "worker_step ?wr ?hi queued_5 =
        Inr (?wr, queued_5, None,
             [Recv (w_connfd ?wr) (ret ?hi),
              Printf ''[SERVER] Received %zd bytes from connection %d: %s\<newline>''
                [D (ret ?hi), D (w_connfd ?wr), S (c_string (take (nat (ret ?hi)) (bytes ?hi)))]])"
    by blast
  then have r: "worker_step ?wr ?hi queued_5 =
     Inr (?wr, queued_5, None,
          [Recv 5 2,
           Printf ''[SERVER] Received %zd bytes from connection %d: %s\<newline>'' [D 2, D 5, S ''hi'']])"
    by (simp add: c_string_def)
  note t6 = worker_never_registers[of ?wr queued_5 "[]" ?wr queued_5 "[]" 5 Map.empty ?q0 "sys 0" "sys 0"]
  have le: "ret (sys 0) \<le> 0" by (simp add: sys_def)
  from t6[THEN conjunct2, THEN conjunct2, THEN conjunct2, THEN conjunct2, THEN conjunct2] pcs(3) le
  have "worker_run ?wr queued_5 [sys 0, sys 0] =
        Inr (?wr\<lparr>w_pc := W_dequeue\<rparr>, queued_5,
             [Recv (w_connfd ?wr) (ret (sys 0)),
              if ret (sys 0) < 0 then Perror ''Failed to receive data from connection''
              else Printf ''[SERVER] Connection %d closed by client\<newline>'' [D (w_connfd ?wr)],
              Close (w_connfd ?wr)])"
    by blast
  then have d: "worker_run ?wr queued_5 [sys 0, sys 0] =
     Inr (\<lparr>w_pc = W_dequeue, w_connfd = 5\<rparr>, queued_5,
          [Recv 5 0, Printf ''[SERVER] Connection %d closed by client\<newline>'' [D 5], Close 5])"
    by (simp only: s(1) worker.simps worker.update_convs if_False less_irrefl) 
  from worker_dispatch_5 cl sv a dq b c0 c1 c2 r d show ?thesis by (intro conjI)
qed

text \<open>
  Claim C2 as stated has every dispatched and not yet closed connection in the registry.
  After \<^verbatim>\<open>main\<close> has accepted descriptor 5, a worker dequeues it and takes its
  next step; the worker is then in its read loop on descriptor 5, which it has not closed,
  and the client manager holds no descriptor at all.
\<close>

theorem dispatched_not_registered:
  "map_sum id globals (main setup_ok [accept_5]) = Inr queued_5 \<and>
   worker_run \<lparr>w_pc = W_dequeue, w_connfd = 0\<rparr> queued_5 [sys 0, sys 0] =
     Inr (\<lparr>w_pc = W_recv, w_connfd = 5\<rparr>,
          \<lparr>nodes = Map.empty, queue = \<lparr>head = None, tail = None\<rparr>,
           clients = \<lparr>client_fds = [], count = 0\<rparr>\<rparr>,
          [Printf ''[SERVER]Worker thread processing connection %d\<newline>'' [D 5]]) \<and>
   5 \<in> serving \<lparr>w_pc = W_recv, w_connfd = 5\<rparr> \<and>
   5 \<notin> registered \<lparr>client_fds = [], count = 0\<rparr>"
  by (intro conjI main_accept_5 worker_dispatch_5) (simp_all add: serving_def registered_def active_def)

text \<open>
  Claim C1 asks for a single \<^verbatim>\<open>close\<close> of a connection's descriptor, after both
  loops have ended, and no use of the descriptor afterwards. In the schedule
  \<open>peer_closes\<close> the code produces the trace below: the worker closes descriptor 5 while
  the sender is still in its loop, the sender then calls \<^verbatim>\<open>send\<close> on the closed
  descriptor, and when that fails the sender closes descriptor 5 a second time. This is
  no accident of the schedule: by \<open>conn_close_count\<close> every connection whose sender
  was created and has returned, and whose worker has finished its iteration, has had its
  descriptor closed twice.
\<close>

theorem connection_closed_twice:
  "trace_of (conn_run (conn_start 5) peer_closes) =
     [Send 5 ''Server test message #0'' 22,
      Printf ''[SERVER] Sent to client %d: %s\<newline>'' [D 5, S ''Server test message #0''],
      Sleep 1, Recv 5 0,
      Printf ''[SERVER] Connection %d closed by client\<newline>'' [D 5],
      Close 5, Send 5 ''Server test message #1'' (- 1), Perror ''Failed to send data'', Close 5] \<and>
   closes 5 (trace_of (conn_run (conn_start 5) peer_closes)) = 2 \<and>
   used_after_close 5 (trace_of (conn_run (conn_start 5) peer_closes))"
proof -
  have t: "trace_of (conn_run (conn_start 5) peer_closes) =
     [Send 5 ''Server test message #0'' 22,
      Printf ''[SERVER] Sent to client %d: %s\<newline>'' [D 5, S ''Server test message #0''],
      Sleep 1, Recv 5 0,
      Printf ''[SERVER] Connection %d closed by client\<newline>'' [D 5],
      Close 5, Send 5 ''Server test message #1'' (- 1), Perror ''Failed to send data'', Close 5]"
    by (simp add: trace_of_def conn_start_def peer_closes_def conn_step_def worker_serve_def
          sender_step_def sender_start_def sys_def test_message_0 test_message_1 Let_def)
  show ?thesis unfolding t by (simp add: closes_def)
qed

text \<open>
  Claim C5 has the sender leave the socket to the worker when a \<^verbatim>\<open>send\<close> fails. In
  the code the statement after the sender's loop is \<^verbatim>\<open>close(connfd)\<close>: a sender on
  descriptor 5 whose first \<^verbatim>\<open>send\<close> fails logs the failure, leaves the loop and
  closes descriptor 5 itself (\<open>sender_failure_closes\<close> shows the same for every
  descriptor and every failing result).
\<close>

theorem sender_closes_socket:
  "sender_thread 5 [- 1, 0] =
     (\<lparr>s_connfd = 5, s_counter = 1, s_pc = S_done\<rparr>,
      [Send 5 ''Server test message #0'' (- 1), Perror ''Failed to send data'', Close 5])"
  by (simp add: sender_thread_def sender_start_def sender_step_def test_message_0 Let_def)

end
